theory Spec2Isabelle
  imports Complex_Main "HOL-Library.Sublist"
begin

text \<open>
  The collection pipeline of the job scraper: the search loop of the collector, the
  consolidation with its removal of duplicates, the cleaner and the exporter. A table is
  a pandas DataFrame, modelled by its columns and rows, and the operations of pandas and
  of the json module are modelled from their documented behaviour. The Search Provider,
  the clock and the file system are parameters of the run. What the program prints is
  not modelled, only the errors the printing of the statistics raises and the error the
  export reports.
\<close>

section \<open>Values held in a record field\<close>

text \<open>
  A Python float is either not-a-number, an infinity (the flag is the sign, True for
  negative) or a finite dyadic number, mantissa times two to the exponent.
\<close>

datatype pyfloat = FNaN | FInf bool | FFinite int int

text \<open>A \<^verbatim>\<open>datetime.date\<close>: year, month, day.\<close>

datatype pydate = PyDate nat nat nat

text \<open>
  The values a cell of a job table can hold: \<^verbatim>\<open>None\<close>, a bool, an int, a float, a
  str, a date, the pandas missing marker \<^verbatim>\<open>pd.NA\<close>, and an object of any other type
  (named by its type): one that neither the json module writes by itself nor
  \<^verbatim>\<open>pd.isna\<close> takes for missing.
\<close>

datatype pyval =
    PNone
  | PBool bool
  | PInt int
  | PFloat pyfloat
  | PStr string
  | PDate pydate
  | PNA
  | POther string

datatype pyerror =
    TypeError string
  | ValueError string
  | OSError string
  | OtherException string

subsection \<open>Strings\<close>

text \<open>
  Strings are byte strings; \<^verbatim>\<open>str.strip\<close> and \<^verbatim>\<open>str.lower\<close> are modelled on the
  ASCII range: the whitespace characters are tab, line feed, vertical tab, form feed,
  carriage return, the four separators 28 to 31 and the space.
\<close>

definition py_isspace :: "char \<Rightarrow> bool" where
  "py_isspace c = (of_char c \<in> {9, 10, 11, 12, 13, 28, 29, 30, 31, 32 :: nat})"

definition strip :: "string \<Rightarrow> string" where
  "strip s = rev (dropWhile py_isspace (rev (dropWhile py_isspace s)))"

definition lower_char :: "char \<Rightarrow> char" where
  "lower_char c =
     (if 65 \<le> (of_char c :: nat) \<and> (of_char c :: nat) \<le> 90
      then char_of (of_char c + (32 :: nat)) else c)"

definition lower :: "string \<Rightarrow> string" where
  "lower s = map lower_char s"

subsection \<open>Floats\<close>

text \<open>The number a finite float stands for.\<close>

definition float_val :: "int \<Rightarrow> int \<Rightarrow> rat" where
  "float_val m e = (if 0 \<le> e then of_int m * 2 ^ nat e else of_int m / 2 ^ nat (- e))"

text \<open>IEEE comparison \<^verbatim>\<open>a != b\<close>: a not-a-number differs from everything, itself included.\<close>

fun float_ne :: "pyfloat \<Rightarrow> pyfloat \<Rightarrow> bool" where
  "float_ne FNaN _ = True"
| "float_ne _ FNaN = True"
| "float_ne (FInf s) (FInf t) = (s \<noteq> t)"
| "float_ne (FFinite m e) (FFinite n f) = (float_val m e \<noteq> float_val n f)"
| "float_ne _ _ = True"

definition digit_char :: "nat \<Rightarrow> char" where
  "digit_char n = char_of (48 + n)"

fun str_nat :: "nat \<Rightarrow> string" where
  "str_nat n = (if n < 10 then [digit_char n] else str_nat (n div 10) @ [digit_char (n mod 10)])"

definition str_int :: "int \<Rightarrow> string" where
  "str_int i = (if i < 0 then CHR ''-'' # str_nat (nat (- i)) else str_nat (nat i))"

text \<open>
  \<^verbatim>\<open>str(value)\<close> of a float. Python prints \<^verbatim>\<open>nan\<close>, \<^verbatim>\<open>inf\<close>, \<^verbatim>\<open>-inf\<close>, and for a
  finite float the shortest decimal that reads back as the same float; the model prints
  mantissa and exponent in decimal instead, a string of the same alphabet (sign, digits
  and \<^verbatim>\<open>e\<close>).
\<close>

fun str_float :: "pyfloat \<Rightarrow> string" where
  "str_float FNaN = ''nan''"
| "str_float (FInf neg) = (if neg then ''-inf'' else ''inf'')"
| "str_float (FFinite m e) = str_int m @ ''e'' @ str_int e"

section \<open>The cleaner: invalid values (cleaner.py)\<close>

text \<open>\<^verbatim>\<open>_is_nan\<close>: \<^verbatim>\<open>value != value or str(value).lower() == 'nan'\<close>.\<close>

definition is_nan :: "pyfloat \<Rightarrow> bool" where
  "is_nan v = (float_ne v v \<or> lower (str_float v) = ''nan'')"

text \<open>\<^verbatim>\<open>_is_invalid_string\<close>: \<^verbatim>\<open>value.strip() == '' or value.lower() == 'nan'\<close>.\<close>

definition is_invalid_string :: "string \<Rightarrow> bool" where
  "is_invalid_string v = (strip v = '''' \<or> lower v = ''nan'')"

text \<open>
  A record is a Python dict: its items in insertion order. \<^verbatim>\<open>record[key] = value\<close>
  on a key of the dict replaces the value in place.
\<close>

type_synonym pydict = "(string \<times> pyval) list"

fun dict_set :: "pydict \<Rightarrow> string \<Rightarrow> pyval \<Rightarrow> pydict" where
  "dict_set [] k v = [(k, v)]"
| "dict_set ((k', v') # d) k v = (if k' = k then (k, v) # d else (k', v') # dict_set d k v)"

text \<open>
  \<^verbatim>\<open>_clean_record\<close>: the loop runs over a copy of the items, \<^verbatim>\<open>list(record.items())\<close>,
  and writes into the record itself.
\<close>

definition clean_item :: "string \<times> pyval \<Rightarrow> pydict \<Rightarrow> pydict" where
  "clean_item kv record =
     (case kv of (key, val) \<Rightarrow>
        (case val of
           PNone \<Rightarrow> record
         | PFloat f \<Rightarrow> (if is_nan f then dict_set record key PNone else record)
         | PStr s \<Rightarrow> (if is_invalid_string s then dict_set record key PNone else record)
         | _ \<Rightarrow> record))"

definition clean_record :: "pydict \<Rightarrow> pydict" where
  "clean_record record = fold clean_item record record"

text \<open>The loop of \<^verbatim>\<open>_remove_invalid_values\<close> over the records.\<close>

definition clean_records :: "pydict list \<Rightarrow> pydict list" where
  "clean_records jobs_dict = map clean_record jobs_dict"

text \<open>
  The rule of the specification, in its words: a float that is not-a-number, a string
  that is empty after trimming and a string that equals "nan" without regard to case
  become null; every other value stays.
\<close>

definition equals_ignoring_case :: "string \<Rightarrow> string \<Rightarrow> bool" where
  "equals_ignoring_case a b = (lower a = lower b)"

fun spec_normalize :: "pyval \<Rightarrow> pyval" where
  "spec_normalize (PFloat f) = (if f = FNaN then PNone else PFloat f)"
| "spec_normalize (PStr s) =
     (if strip s = [] \<or> equals_ignoring_case s ''nan'' then PNone else PStr s)"
| "spec_normalize v = v"

section \<open>Job tables (pandas DataFrame)\<close>

text \<open>
  A table is its column labels, in order, and its rows, each row holding one cell per
  column. The row index is positional, so \<^verbatim>\<open>reset_index(drop=True)\<close> and
  \<^verbatim>\<open>ignore_index=True\<close> change nothing in the model. The model has no column dtypes:
  a cell holds the value the operations put there.
\<close>

record dataframe =
  columns :: "string list"
  rows :: "pyval list list"

text \<open>
  A table of pandas as the model takes it: the labels are distinct and every row has a
  cell for each column.
\<close>

definition wf_frame :: "dataframe \<Rightarrow> bool" where
  "wf_frame df =
     (distinct (columns df) \<and> list_all (\<lambda>r. length r = length (columns df)) (rows df))"

text \<open>\<^verbatim>\<open>DataFrame.empty\<close>: an axis of length zero.\<close>

definition df_empty :: "dataframe \<Rightarrow> bool" where
  "df_empty df = (columns df = [] \<or> rows df = [])"

text \<open>The cell of row \<open>r\<close> under the label \<open>c\<close>.\<close>

definition cell :: "dataframe \<Rightarrow> pyval list \<Rightarrow> string \<Rightarrow> pyval option" where
  "cell df r c = map_of (zip (columns df) r) c"

text \<open>\<^verbatim>\<open>to_dict(orient='records')\<close>: one dict per row, the keys in column order.\<close>

definition to_dict :: "dataframe \<Rightarrow> pydict list" where
  "to_dict df = map (\<lambda>r. zip (columns df) r) (rows df)"

text \<open>Labels in the order of their first appearance.\<close>

definition first_seen :: "string list \<Rightarrow> string list" where
  "first_seen ks = fold (\<lambda>k acc. if k \<in> set acc then acc else acc @ [k]) ks []"

text \<open>A record laid out under the given columns; a missing field is not-a-number.\<close>

definition lay_out :: "string list \<Rightarrow> pydict \<Rightarrow> pyval list" where
  "lay_out cols d = map (\<lambda>c. case map_of d c of Some v \<Rightarrow> v | None \<Rightarrow> PFloat FNaN) cols"

text \<open>\<^verbatim>\<open>pd.DataFrame(records)\<close> of a list of dicts.\<close>

definition from_records :: "pydict list \<Rightarrow> dataframe" where
  "from_records ds =
     (let cols = first_seen (concat (map (map fst) ds))
      in \<lparr>columns = cols, rows = map (lay_out cols) ds\<rparr>)"

text \<open>
  \<^verbatim>\<open>pd.concat(frames, ignore_index=True)\<close>: the union of the columns in the order of
  their first appearance, the rows of the frames one after the other; no frames at all
  is a ValueError.
\<close>

definition pd_concat :: "dataframe list \<Rightarrow> pyerror + dataframe" where
  "pd_concat frames =
     (if frames = [] then Inl (ValueError ''No objects to concatenate'')
      else
        let cols = first_seen (concat (map columns frames))
        in Inr \<lparr>columns = cols,
                rows = concat (map (\<lambda>f. map (lay_out cols) (to_dict f)) frames)\<rparr>)"

text \<open>
  \<^verbatim>\<open>drop_duplicates(subset, keep='first')\<close>: a row whose cells under the subset equal
  those of an earlier row is dropped. Cells are compared as values; a not-a-number cell
  equals a not-a-number cell, as pandas has it when it looks for duplicates. This is the
  table the call returns; when it raises instead is \<open>drop_duplicates_raises\<close>, with the
  collector.
\<close>

fun keep_first :: "('a \<Rightarrow> 'k) \<Rightarrow> 'k list \<Rightarrow> 'a list \<Rightarrow> 'a list" where
  "keep_first key seen [] = []"
| "keep_first key seen (r # rs) =
     (if key r \<in> set seen then keep_first key seen rs
      else r # keep_first key (key r # seen) rs)"

definition drop_duplicates :: "string list \<Rightarrow> dataframe \<Rightarrow> dataframe" where
  "drop_duplicates subset_labels df =
     df\<lparr>rows := keep_first (\<lambda>r. map (cell df r) subset_labels) [] (rows df)\<rparr>"

text \<open>\<^verbatim>\<open>jobs[name] = value\<close> with a scalar: the column is overwritten, or added last.\<close>

definition set_column :: "string \<Rightarrow> pyval \<Rightarrow> dataframe \<Rightarrow> dataframe" where
  "set_column c v df =
     (if c \<in> set (columns df)
      then df\<lparr>rows := map (\<lambda>r. map (\<lambda>(c', x). if c' = c then v else x) (zip (columns df) r))
                          (rows df)\<rparr>
      else df\<lparr>columns := columns df @ [c], rows := map (\<lambda>r. r @ [v]) (rows df)\<rparr>)"

text \<open>\<^verbatim>\<open>pd.isna\<close> of a scalar.\<close>

definition pd_isna :: "pyval \<Rightarrow> bool" where
  "pd_isna v = (v = PNone \<or> v = PFloat FNaN \<or> v = PNA)"

section \<open>The cleaner (cleaner.py)\<close>

definition ESSENTIAL_COLUMNS :: "string list" where
  "ESSENTIAL_COLUMNS =
     [''id'', ''site'', ''job_url'', ''job_url_direct'', ''title'', ''company'', ''location'',
      ''date_posted'', ''job_type'', ''salary_source'', ''interval'', ''min_amount'',
      ''max_amount'', ''currency'', ''is_remote'', ''job_level'', ''job_function'',
      ''description'', ''skills'', ''search_term'', ''search_location'', ''search_country'']"

text \<open>
  The description gate,
  \<^verbatim>\<open>jobs[jobs['description'].notna() & (jobs['description'] != '')]\<close>.
\<close>

definition has_description :: "dataframe \<Rightarrow> pyval list \<Rightarrow> bool" where
  "has_description df r =
     (case cell df r ''description'' of
        None \<Rightarrow> False
      | Some v \<Rightarrow> \<not> pd_isna v \<and> v \<noteq> PStr [])"

definition description_gate :: "dataframe \<Rightarrow> dataframe" where
  "description_gate df = df\<lparr>rows := filter (has_description df) (rows df)\<rparr>"

text \<open>\<^verbatim>\<open>_filter_columns\<close>.\<close>

definition filter_columns :: "dataframe \<Rightarrow> dataframe" where
  "filter_columns jobs =
     (let available_columns = filter (\<lambda>col. col \<in> set (columns jobs)) ESSENTIAL_COLUMNS
      in \<lparr>columns = available_columns,
          rows = map (\<lambda>r. lay_out available_columns (zip (columns jobs) r)) (rows jobs)\<rparr>)"

text \<open>
  \<^verbatim>\<open>_remove_invalid_values\<close>: the missing markers become \<^verbatim>\<open>None\<close>
  (\<^verbatim>\<open>replace\<close>, \<^verbatim>\<open>where\<close>), then every record is cleaned and the table rebuilt.
\<close>

definition na_to_none :: "dataframe \<Rightarrow> dataframe" where
  "na_to_none df = df\<lparr>rows := map (map (\<lambda>v. if pd_isna v then PNone else v)) (rows df)\<rparr>"

definition remove_invalid_values :: "dataframe \<Rightarrow> dataframe" where
  "remove_invalid_values jobs = from_records (clean_records (to_dict (na_to_none jobs)))"

text \<open>
  \<^verbatim>\<open>clean\<close>, what it returns. \<^verbatim>\<open>None\<close> is returned for an absent or empty input
  and for a table that is empty after the steps. The warning it prints is left out here;
  what the warning raises is \<open>clean_warning_raises\<close>, with the collector.
\<close>

definition clean :: "dataframe option \<Rightarrow> dataframe option" where
  "clean jobs =
     (case jobs of
        None \<Rightarrow> None
      | Some j \<Rightarrow>
          if df_empty j then None
          else
            let j1 = (if ''description'' \<in> set (columns j) then description_gate j else j);
                j2 = filter_columns j1;
                j3 = remove_invalid_values j2
            in if df_empty j3 then None else Some j3)"

section \<open>The exporter (exporter.py)\<close>

subsection \<open>The sweep before serialization\<close>

text \<open>
  \<^verbatim>\<open>_clean_for_json\<close>: for every record, the loop runs over a copy of the keys and
  reads \<^verbatim>\<open>record[key]\<close>; a key of the copy is a key of the record, so the
  lookup finds it.
\<close>

definition json_clean_key :: "string \<Rightarrow> pydict \<Rightarrow> pydict" where
  "json_clean_key key record =
     (case map_of record key of
        None \<Rightarrow> record
      | Some val \<Rightarrow>
          (case val of
             PNone \<Rightarrow> record
           | PFloat f \<Rightarrow>
               (if float_ne f f \<or> lower (str_float f) = ''nan''
                then dict_set record key PNone else record)
           | PStr s \<Rightarrow> (if lower s = ''nan'' then dict_set record key PNone else record)
           | _ \<Rightarrow> record))"

definition clean_record_for_json :: "pydict \<Rightarrow> pydict" where
  "clean_record_for_json record = fold json_clean_key (map fst record) record"

definition clean_for_json :: "pydict list \<Rightarrow> pydict list" where
  "clean_for_json jobs_dict = map clean_record_for_json jobs_dict"

subsection \<open>Serialization\<close>

text \<open>A scalar of the document; a number is a finite float, mantissa and exponent.\<close>

datatype json = JNull | JBool bool | JInt int | JFloat int int | JStr string

type_synonym json_object = "(string \<times> json) list"

definition zfill :: "nat \<Rightarrow> string \<Rightarrow> string" where
  "zfill n s = replicate (n - length s) (CHR ''0'') @ s"

fun isoformat :: "pydate \<Rightarrow> string" where
  "isoformat (PyDate y m d) =
     zfill 4 (str_nat y) @ ''-'' @ zfill 2 (str_nat m) @ ''-'' @ zfill 2 (str_nat d)"

text \<open>The name of the type of a value, which the writer's TypeError carries.\<close>

fun type_name :: "pyval \<Rightarrow> string" where
  "type_name PNone = ''NoneType''"
| "type_name (PBool _) = ''bool''"
| "type_name (PInt _) = ''int''"
| "type_name (PFloat _) = ''float''"
| "type_name (PStr _) = ''str''"
| "type_name (PDate _) = ''datetime.date''"
| "type_name PNA = ''pandas._libs.missing.NAType''"
| "type_name (POther t) = t"

text \<open>
  \<^verbatim>\<open>_json_serializer\<close>, in the order of the source: a date, \<^verbatim>\<open>None\<close>, a float
  that is not-a-number, a value \<^verbatim>\<open>pd.isna\<close> accepts, and the TypeError for the rest.
\<close>

fun json_serializer :: "pyval \<Rightarrow> pyerror + pyval" where
  "json_serializer (PDate d) = Inr (PStr (isoformat d))"
| "json_serializer PNone = Inr PNone"
| "json_serializer obj =
     (if (case obj of PFloat f \<Rightarrow> float_ne f f \<or> lower (str_float f) = ''nan'' | _ \<Rightarrow> False)
      then Inr PNone
      else if pd_isna obj then Inr PNone
      else Inl (TypeError (type_name obj)))"

text \<open>
  What \<^verbatim>\<open>json.dump\<close> writes by itself, with \<^verbatim>\<open>allow_nan=False\<close>: \<^verbatim>\<open>None\<close>, bool,
  int, str and a finite float; a float that is not finite is a ValueError. For a value
  of any other type (the result is \<open>None\<close>) it calls \<^verbatim>\<open>default\<close>.
\<close>

fun encode_native :: "pyval \<Rightarrow> (pyerror + json) option" where
  "encode_native PNone = Some (Inr JNull)"
| "encode_native (PBool b) = Some (Inr (JBool b))"
| "encode_native (PInt i) = Some (Inr (JInt i))"
| "encode_native (PStr s) = Some (Inr (JStr s))"
| "encode_native (PFloat (FFinite m e)) = Some (Inr (JFloat m e))"
| "encode_native (PFloat _) =
     Some (Inl (ValueError ''Out of range float values are not JSON compliant''))"
| "encode_native _ = None"

text \<open>
  The value \<^verbatim>\<open>default\<close> returns is encoded in its place. \<^verbatim>\<open>_json_serializer\<close>
  returns a str or \<^verbatim>\<open>None\<close> only, so the encoder never has to call it on its own
  result; that branch is closed with the TypeError.
\<close>

definition encode_value :: "pyval \<Rightarrow> pyerror + json" where
  "encode_value v =
     (case encode_native v of
        Some r \<Rightarrow> r
      | None \<Rightarrow>
          (case json_serializer v of
             Inl e \<Rightarrow> Inl e
           | Inr v' \<Rightarrow>
               (case encode_native v' of
                  Some r \<Rightarrow> r
                | None \<Rightarrow> Inl (TypeError (type_name v')))))"

text \<open>The fields of a record and the records of the list are written in order; the
  first error ends the writing.\<close>

fun encode_items :: "pydict \<Rightarrow> pyerror + json_object" where
  "encode_items [] = Inr []"
| "encode_items ((k, v) # d) =
     (case encode_value v of
        Inl e \<Rightarrow> Inl e
      | Inr j \<Rightarrow> (case encode_items d of Inl e \<Rightarrow> Inl e | Inr js \<Rightarrow> Inr ((k, j) # js)))"

fun json_dump :: "pydict list \<Rightarrow> pyerror + json_object list" where
  "json_dump [] = Inr []"
| "json_dump (r # rs) =
     (case encode_items r of
        Inl e \<Rightarrow> Inl e
      | Inr obj \<Rightarrow> (case json_dump rs of Inl e \<Rightarrow> Inl e | Inr objs \<Rightarrow> Inr (obj # objs)))"

subsection \<open>Files and the export\<close>

text \<open>
  What a written file holds: the table of the tabular file (its text format is not
  modelled), the objects of a complete document, or a document cut off by an error.
\<close>

datatype file_content = CsvFile dataframe | JsonFile "json_object list" | JsonTruncated

text \<open>
  The environment of an export: the clock, and the error the file system raises, if
  any, when the tabular file is written and when the document file is opened.
\<close>

record io_env =
  now :: string
  to_csv_raises :: "pyerror option"
  open_raises :: "pyerror option"

record exporter =
  output_dir :: string

text \<open>
  The memory an export works on: the caller's table, the list of dicts local to
  \<^verbatim>\<open>_export_json\<close>, and the files written so far.
\<close>

record export_state =
  mem_jobs :: dataframe
  mem_jobs_dict :: "pydict list"
  files :: "(string \<times> file_content) list"

definition export_csv :: "io_env \<Rightarrow> string \<Rightarrow> export_state \<Rightarrow> pyerror option \<times> export_state" where
  "export_csv io filename st =
     (case to_csv_raises io of
        Some e \<Rightarrow> (Some e, st)
      | None \<Rightarrow> (None, st\<lparr>files := files st @ [(filename, CsvFile (mem_jobs st))]\<rparr>))"

definition export_json :: "io_env \<Rightarrow> string \<Rightarrow> export_state \<Rightarrow> pyerror option \<times> export_state" where
  "export_json io filename st =
     (let st1 = st\<lparr>mem_jobs_dict := to_dict (mem_jobs st)\<rparr>;
          st2 = st1\<lparr>mem_jobs_dict := clean_for_json (mem_jobs_dict st1)\<rparr>
      in case open_raises io of
           Some e \<Rightarrow> (Some e, st2)
         | None \<Rightarrow>
             (case json_dump (mem_jobs_dict st2) of
                Inl e \<Rightarrow> (Some e, st2\<lparr>files := files st2 @ [(filename, JsonTruncated)]\<rparr>)
              | Inr doc \<Rightarrow> (None, st2\<lparr>files := files st2 @ [(filename, JsonFile doc)]\<rparr>)))"

text \<open>
  The outcome of \<^verbatim>\<open>export\<close>: the boolean it returns, the error its \<^verbatim>\<open>except\<close>
  branch printed, the caller's table after the call, and the files written.
\<close>

record export_result =
  success :: bool
  reported :: "pyerror option"
  jobs_after :: "dataframe option"
  files_written :: "(string \<times> file_content) list"

definition export :: "io_env \<Rightarrow> exporter \<Rightarrow> dataframe option \<Rightarrow> string \<Rightarrow> export_result" where
  "export io self jobs base_filename =
     (case jobs of
        None \<Rightarrow> \<lparr>success = False, reported = None, jobs_after = None, files_written = []\<rparr>
      | Some j \<Rightarrow>
          if df_empty j
          then \<lparr>success = False, reported = None, jobs_after = Some j, files_written = []\<rparr>
          else
            let timestamp = now io;
                csv_file = output_dir self @ ''/'' @ base_filename @ ''_'' @ timestamp @ ''.csv'';
                json_file = output_dir self @ ''/'' @ base_filename @ ''_'' @ timestamp @ ''.json'';
                st0 = \<lparr>mem_jobs = j, mem_jobs_dict = [], files = []\<rparr>
            in case export_csv io csv_file st0 of
                 (Some e, st1) \<Rightarrow>
                   \<lparr>success = False, reported = Some e, jobs_after = Some (mem_jobs st1),
                    files_written = files st1\<rparr>
               | (None, st1) \<Rightarrow>
                   (case export_json io json_file st1 of
                      (Some e, st2) \<Rightarrow>
                        \<lparr>success = False, reported = Some e, jobs_after = Some (mem_jobs st2),
                         files_written = files st2\<rparr>
                    | (None, st2) \<Rightarrow>
                        \<lparr>success = True, reported = None, jobs_after = Some (mem_jobs st2),
                         files_written = files st2\<rparr>))"

section \<open>The scraper (scraper.py)\<close>

subsection \<open>What the statistics of pandas raise\<close>

text \<open>
  \<^verbatim>\<open>value_counts\<close>, \<^verbatim>\<open>nunique\<close>, \<^verbatim>\<open>unique\<close> and \<^verbatim>\<open>drop_duplicates\<close> hash the
  cells they look at and raise a TypeError on a cell that has no hash. The scalars of
  the model have one; an object of another type has the default hash of Python
  objects, unless its type is one of the built-in types without a hash.
\<close>

definition unhashable_types :: "string list" where
  "unhashable_types = [''set'', ''bytearray'', ''list'', ''dict'']"

fun hashable :: "pyval \<Rightarrow> bool" where
  "hashable (POther t) = (t \<notin> set unhashable_types)"
| "hashable _ = True"

text \<open>The cells of a column, \<^verbatim>\<open>jobs[c]\<close>, from the first row to the last.\<close>

definition column_cells :: "dataframe \<Rightarrow> string \<Rightarrow> pyval list" where
  "column_cells df c = List.map_filter (\<lambda>r. cell df r c) (rows df)"

definition hash_raises :: "pyval list \<Rightarrow> pyerror option" where
  "hash_raises vs =
     (case filter (\<lambda>v. \<not> hashable v) vs of
        [] \<Rightarrow> None
      | v # _ \<Rightarrow> Some (TypeError (type_name v)))"

text \<open>
  \<^verbatim>\<open>jobs["is_remote"].sum()\<close> and the division of the sum by the number of rows:
  missing cells are skipped, bools and numbers add up (numbers in the range of a float);
  a str or a date makes the sum or the division raise a TypeError, and so does an
  object of another type: the objects of the model are no numbers.
\<close>

fun summable :: "pyval \<Rightarrow> bool" where
  "summable PNone = True"
| "summable PNA = True"
| "summable (PBool _) = True"
| "summable (PInt _) = True"
| "summable (PFloat _) = True"
| "summable _ = False"

definition sum_raises :: "pyval list \<Rightarrow> pyerror option" where
  "sum_raises vs =
     (case filter (\<lambda>v. \<not> summable v) vs of
        [] \<Rightarrow> None
      | v # _ \<Rightarrow> Some (TypeError (type_name v)))"

text \<open>
  \<^verbatim>\<open>_print_statistics\<close>: the error it raises, if any. It counts the sites, the
  companies and the locations and sums the remote flags, each when the column is there.
\<close>

definition print_statistics :: "dataframe \<Rightarrow> pyerror option" where
  "print_statistics jobs =
     (case (if ''site'' \<in> set (columns jobs) then hash_raises (column_cells jobs ''site'')
            else None) of
        Some e \<Rightarrow> Some e
      | None \<Rightarrow>
     (case (if ''company'' \<in> set (columns jobs) then hash_raises (column_cells jobs ''company'')
            else None) of
        Some e \<Rightarrow> Some e
      | None \<Rightarrow>
     (case (if ''location'' \<in> set (columns jobs) then hash_raises (column_cells jobs ''location'')
            else None) of
        Some e \<Rightarrow> Some e
      | None \<Rightarrow>
          (if ''is_remote'' \<in> set (columns jobs) then sum_raises (column_cells jobs ''is_remote'')
           else None))))"

subsection \<open>The search\<close>

text \<open>The keyword arguments \<^verbatim>\<open>_build_params\<close> hands to the Search Provider.\<close>

record scrape_params =
  kw_site_name :: "string list"
  kw_search_term :: string
  kw_location :: string
  kw_country_indeed :: string
  kw_results_wanted :: int
  kw_hours_old :: int
  kw_verbose :: int
  kw_linkedin_fetch_description :: bool
  kw_proxies :: "string list option"
  kw_job_type :: "string option"
  kw_is_remote :: "bool option"

record scraper =
  verbose :: int
  proxies :: "string list"

definition DEFAULT_PLATFORMS :: "string list" where
  "DEFAULT_PLATFORMS = [''indeed'', ''glassdoor'']"

definition build_params ::
  "scraper \<Rightarrow> string \<Rightarrow> string \<Rightarrow> string list \<Rightarrow> string \<Rightarrow> int \<Rightarrow> int \<Rightarrow>
   string option \<Rightarrow> bool option \<Rightarrow> scrape_params" where
  "build_params self t loc sites ctry wanted days jtype remote =
     \<lparr>kw_site_name = sites,
      kw_search_term = t,
      kw_location = loc,
      kw_country_indeed = ctry,
      kw_results_wanted = wanted,
      kw_hours_old = days * 24,
      kw_verbose = verbose self,
      kw_linkedin_fetch_description = True,
      kw_proxies = (if proxies self \<noteq> [] then Some (proxies self) else None),
      kw_job_type = (case jtype of Some j \<Rightarrow> if j \<noteq> [] then Some j else None | None \<Rightarrow> None),
      kw_is_remote = remote\<rparr>"

text \<open>
  What a run does to the outside, in order: a call of the Search Provider with its
  arguments, and a pause of so many seconds.
\<close>

datatype event = Scrape scrape_params | Sleep nat

text \<open>The calls of the Search Provider in a trace.\<close>

fun calls_of :: "event list \<Rightarrow> scrape_params list" where
  "calls_of [] = []"
| "calls_of (Scrape p # es) = p # calls_of es"
| "calls_of (Sleep d # es) = calls_of es"

text \<open>
  The Search Provider of a run: what \<^verbatim>\<open>scrape_jobs\<close> does on its call number \<open>i\<close>
  (counted from zero) with the given arguments: it returns a table, \<^verbatim>\<open>None\<close>, or
  raises an exception of the class \<^verbatim>\<open>Exception\<close>. Every answer is a table of its own: the
  model has tables as values, and no two answers share one object.
\<close>

type_synonym provider = "nat \<Rightarrow> scrape_params \<Rightarrow> pyerror + dataframe option"

text \<open>
  A call \<^verbatim>\<open>scrape_jobs(**params)\<close>: the provider answers as its call number says, the
  number of the calls made before, and the call is entered in the trace. No other
  definition applies the provider.
\<close>

definition invoke ::
  "provider \<Rightarrow> scrape_params \<Rightarrow> event list \<Rightarrow> (pyerror + dataframe option) \<times> event list" where
  "invoke scrape_jobs params tr = (scrape_jobs (length (calls_of tr)) params, tr @ [Scrape params])"

text \<open>
  \<^verbatim>\<open>_print_results\<close>, for the error it raises: silent at verbosity 0 and for
  \<^verbatim>\<open>None\<close>, it prints the statistics of a table that has a row.
\<close>

definition print_results :: "scraper \<Rightarrow> dataframe option \<Rightarrow> pyerror option" where
  "print_results self jobs =
     (if verbose self = 0 then None
      else
        (case jobs of
           None \<Rightarrow> None
         | Some j \<Rightarrow>
             if length (rows j) > 0 \<and> verbose self \<ge> 1 then print_statistics j else None))"

text \<open>
  \<^verbatim>\<open>search\<close>: what it returns and the trace after it. Inside the \<^verbatim>\<open>try\<close> it calls
  the provider and prints the results; it returns the table when it has a row, and
  \<^verbatim>\<open>None\<close> otherwise and after an exception of the call or of the printing.
\<close>

definition search ::
  "provider \<Rightarrow> scraper \<Rightarrow> string \<Rightarrow> string \<Rightarrow> string list \<Rightarrow> string \<Rightarrow> int \<Rightarrow> int \<Rightarrow>
   string option \<Rightarrow> bool option \<Rightarrow> event list \<Rightarrow> dataframe option \<times> event list" where
  "search scrape_jobs self t loc sites ctry wanted days jtype remote tr =
     (let sites' = (if sites = [] then DEFAULT_PLATFORMS else sites);
          params = build_params self t loc sites' ctry wanted days jtype remote;
          (answer, tr') = invoke scrape_jobs params tr
      in case answer of
           Inl e \<Rightarrow> (None, tr')
         | Inr jobs \<Rightarrow>
             (case print_results self jobs of
                Some e \<Rightarrow> (None, tr')
              | None \<Rightarrow>
                  (case jobs of
                     None \<Rightarrow> (None, tr')
                   | Some j \<Rightarrow> (if length (rows j) > 0 then Some j else None, tr'))))"

section \<open>The collector (collector.py)\<close>

record location_config =
  location :: string
  country :: string

text \<open>
  The arguments of \<^verbatim>\<open>collect_and_export\<close>. The delay is a duration in seconds, a
  natural number: \<^verbatim>\<open>time.sleep\<close> takes no negative duration.
\<close>

record search_args =
  search_terms :: "string list"
  locations :: "location_config list"
  platforms :: "string list"
  results_per_term :: int
  days_old :: int
  output_filename :: string
  delay_between_searches :: nat
  job_type :: "string option"
  is_remote :: "bool option"

record collector =
  the_scraper :: scraper
  the_exporter :: exporter

record loop_state =
  all_jobs :: "dataframe list"
  current_search :: nat
  trace :: "event list"

text \<open>
  The three metadata columns a batch is tagged with. The code writes them into the
  table the provider returned; in the model the tagged table is a new value.
\<close>

definition tag_batch :: "string \<Rightarrow> location_config \<Rightarrow> dataframe \<Rightarrow> dataframe" where
  "tag_batch t lc jobs =
     set_column ''search_country'' (PStr (country lc))
       (set_column ''search_location'' (PStr (location lc))
          (set_column ''search_term'' (PStr t) jobs))"

text \<open>The body of the inner loop of \<^verbatim>\<open>collect_and_export\<close>.\<close>

definition search_step ::
  "provider \<Rightarrow> collector \<Rightarrow> search_args \<Rightarrow> nat \<Rightarrow> location_config \<Rightarrow> string \<Rightarrow>
   loop_state \<Rightarrow> loop_state" where
  "search_step scrape_jobs self args total_searches lc t s =
     (let s1 = s\<lparr>current_search := current_search s + 1\<rparr>;
          (jobs, tr) =
             search scrape_jobs (the_scraper self) t (location lc)
               (platforms args) (country lc) (results_per_term args) (days_old args)
               (job_type args) (is_remote args) (trace s1);
          s2 = s1\<lparr>trace := tr\<rparr>;
          s3 = (case jobs of
                  None \<Rightarrow> s2
                | Some j \<Rightarrow>
                    if \<not> df_empty j then s2\<lparr>all_jobs := all_jobs s2 @ [tag_batch t lc j]\<rparr>
                    else s2)
      in if current_search s3 < total_searches
         then s3\<lparr>trace := trace s3 @ [Sleep (delay_between_searches args)]\<rparr>
         else s3)"

text \<open>The two nested loops, locations outside and terms inside.\<close>

definition search_loop ::
  "provider \<Rightarrow> collector \<Rightarrow> search_args \<Rightarrow> nat \<Rightarrow> loop_state \<Rightarrow> loop_state" where
  "search_loop scrape_jobs self args total_searches s =
     fold (\<lambda>lc. fold (search_step scrape_jobs self args total_searches lc) (search_terms args))
       (locations args) s"

text \<open>
  The deduplication of \<^verbatim>\<open>_consolidate_and_export\<close>: by \<^verbatim>\<open>id\<close> when the column is
  there, by the whole row otherwise; with the number of rows removed. This is what the
  two calls of \<^verbatim>\<open>drop_duplicates\<close> give when they return.
\<close>

definition deduplicate :: "dataframe \<Rightarrow> dataframe \<times> nat" where
  "deduplicate consolidated =
     (if ''id'' \<in> set (columns consolidated)
      then
        let rows_before = length (rows consolidated);
            unique_jobs = drop_duplicates [''id''] consolidated
        in (unique_jobs, rows_before - length (rows unique_jobs))
      else
        let rows_before = length (rows consolidated);
            unique_jobs = drop_duplicates (columns consolidated) consolidated
        in (unique_jobs, rows_before - length (rows unique_jobs)))"

text \<open>
  What the calls of \<^verbatim>\<open>drop_duplicates\<close> raise instead: a TypeError when a cell of the
  columns they compare has no hash. Nothing in \<^verbatim>\<open>collect_and_export\<close> catches it.
\<close>

definition drop_duplicates_raises :: "string list \<Rightarrow> dataframe \<Rightarrow> pyerror option" where
  "drop_duplicates_raises subset_labels df =
     hash_raises (concat (map (column_cells df) subset_labels))"

definition deduplicate_raises :: "dataframe \<Rightarrow> pyerror option" where
  "deduplicate_raises consolidated =
     (if ''id'' \<in> set (columns consolidated)
      then drop_duplicates_raises [''id''] consolidated
      else drop_duplicates_raises (columns consolidated) consolidated)"

text \<open>
  What the warning of \<^verbatim>\<open>JobDataCleaner.clean\<close> raises on its way: when the description
  gate has removed rows and there is a site column, \<^verbatim>\<open>jobs['site'].unique()\<close> hashes
  the sites of the rows kept. What \<^verbatim>\<open>clean\<close> returns otherwise is \<open>clean\<close>.
\<close>

definition clean_warning_raises :: "dataframe \<Rightarrow> pyerror option" where
  "clean_warning_raises jobs =
     (if df_empty jobs then None
      else if ''description'' \<in> set (columns jobs)
      then
        let kept = description_gate jobs;
            removed_count = length (rows jobs) - length (rows kept)
        in if removed_count > 0 \<and> ''site'' \<in> set (columns kept)
           then hash_raises (column_cells kept ''site'')
           else None
      else None)"

text \<open>
  \<^verbatim>\<open>_consolidate_and_export\<close>: what it returns (or raises) and the export it made,
  if it came to one.
\<close>

definition consolidate_and_export ::
  "io_env \<Rightarrow> collector \<Rightarrow> dataframe list \<Rightarrow> string \<Rightarrow> (pyerror + bool) \<times> export_result option"
  where
  "consolidate_and_export io self batches filename =
     (case pd_concat batches of
        Inl e \<Rightarrow> (Inl e, None)
      | Inr consolidated \<Rightarrow>
          (case deduplicate_raises consolidated of
             Some e \<Rightarrow> (Inl e, None)
           | None \<Rightarrow>
               let (unique_jobs, duplicates_removed) = deduplicate consolidated
               in (case clean_warning_raises unique_jobs of
                     Some e \<Rightarrow> (Inl e, None)
                   | None \<Rightarrow>
                       let clean_jobs = clean (Some unique_jobs);
                           res = export io (the_exporter self) clean_jobs filename
                       in (Inr (success res), Some res))))"

text \<open>
  The outcome of a run: what \<^verbatim>\<open>collect_and_export\<close> returns or raises, the calls and
  pauses it made, and the export, if it came to one.
\<close>

record run_result =
  returned :: "pyerror + bool"
  events :: "event list"
  exported :: "export_result option"

definition collect_and_export ::
  "provider \<Rightarrow> io_env \<Rightarrow> collector \<Rightarrow> search_args \<Rightarrow> run_result" where
  "collect_and_export scrape_jobs io self args =
     (let total_searches = length (search_terms args) * length (locations args);
          s = search_loop scrape_jobs self args total_searches
                \<lparr>all_jobs = [], current_search = 0, trace = []\<rparr>
      in if all_jobs s = []
         then \<lparr>returned = Inr False, events = trace s, exported = None\<rparr>
         else
           let (ret, ex) = consolidate_and_export io self (all_jobs s) (output_filename args)
           in \<lparr>returned = ret, events = trace s, exported = ex\<rparr>)"

section \<open>Notions of the specification\<close>


text \<open>A string value that is empty after trimming.\<close>

fun blank_string :: "pyval \<Rightarrow> bool" where
  "blank_string (PStr s) = (strip s = [])"
| "blank_string _ = False"

text \<open>The cleaning steps of the Cleaner, before it looks whether anything is left.\<close>

definition cleaning_steps :: "dataframe \<Rightarrow> dataframe" where
  "cleaning_steps j =
     remove_invalid_values
       (filter_columns (if ''description'' \<in> set (columns j) then description_gate j else j))"

text \<open>
  The combinations of a run, locations outside and terms inside, and the arguments the
  Search Provider is to get for one of them.
\<close>

definition combinations :: "search_args \<Rightarrow> (location_config \<times> string) list" where
  "combinations args =
     concat (map (\<lambda>lc. map (\<lambda>t. (lc, t)) (search_terms args)) (locations args))"

definition params_for :: "collector \<Rightarrow> search_args \<Rightarrow> location_config \<times> string \<Rightarrow> scrape_params"
  where
  "params_for self args c =
     build_params (the_scraper self) (snd c) (location (fst c))
       (if platforms args = [] then DEFAULT_PLATFORMS else platforms args)
       (country (fst c)) (results_per_term args) (days_old args) (job_type args) (is_remote args)"

text \<open>The pauses in a trace.\<close>

fun pauses_of :: "event list \<Rightarrow> nat list" where
  "pauses_of [] = []"
| "pauses_of (Scrape p # es) = pauses_of es"
| "pauses_of (Sleep d # es) = d # pauses_of es"

text \<open>The calls with one pause of \<open>d\<close> seconds after each but the last.\<close>

fun paced :: "nat \<Rightarrow> scrape_params list \<Rightarrow> event list" where
  "paced d [] = []"
| "paced d [p] = [Scrape p]"
| "paced d (p # q # ps) = Scrape p # Sleep d # paced d (q # ps)"


fun no_records :: "scraper \<Rightarrow> pyerror + dataframe option \<Rightarrow> bool" where
  "no_records sc (Inl e) = True"
| "no_records sc (Inr None) = True"
| "no_records sc (Inr (Some j)) = (df_empty j \<or> print_results sc (Some j) \<noteq> None)"


text \<open>The batches of a run: the answers that bring records, each tagged with its query.\<close>

definition batches_of :: "provider \<Rightarrow> collector \<Rightarrow> search_args \<Rightarrow> dataframe list" where
  "batches_of scrape_jobs self args =
     concat (map (\<lambda>(i, c).
        if no_records (the_scraper self) (scrape_jobs i (params_for self args c)) then []
        else
          (case scrape_jobs i (params_for self args c) of
             Inr (Some j) \<Rightarrow> [tag_batch (snd c) (fst c) j]
           | _ \<Rightarrow> []))
      (enumerate 0 (combinations args)))"


section \<open>Auxiliary notions of the proofs\<close>

text \<open>The values the Cleaner rewrites.\<close>

definition invalid_value :: "pyval \<Rightarrow> bool" where
  "invalid_value v =
     (case v of PFloat f \<Rightarrow> is_nan f | PStr s \<Rightarrow> is_invalid_string s | _ \<Rightarrow> False)"

text \<open>A record with the fields of the given keys set to null.\<close>

definition nullify :: "string set \<Rightarrow> pydict \<Rightarrow> pydict" where
  "nullify K d = map (\<lambda>(k, v). (k, if k \<in> K then PNone else v)) d"

text \<open>The values the Exporter's sweep rewrites.\<close>

definition json_invalid :: "pyval \<Rightarrow> bool" where
  "json_invalid v =
     (case v of
        PFloat f \<Rightarrow> float_ne f f \<or> lower (str_float f) = ''nan''
      | PStr s \<Rightarrow> lower s = ''nan''
      | _ \<Rightarrow> False)"


fun unrecognized :: "pyval \<Rightarrow> bool" where
  "unrecognized (POther t) = True"
| "unrecognized _ = False"



text \<open>
  What one pass of the loop body adds for the combination \<open>c\<close>, with \<open>i\<close> calls
  made before it: to the batches, and to the trace.
\<close>

definition batch_of ::
  "provider \<Rightarrow> collector \<Rightarrow> search_args \<Rightarrow> nat \<times> location_config \<times> string \<Rightarrow> dataframe list"
  where
  "batch_of scrape_jobs self args ic =
     (if no_records (the_scraper self) (scrape_jobs (fst ic) (params_for self args (snd ic)))
      then []
      else
        (case scrape_jobs (fst ic) (params_for self args (snd ic)) of
           Inr (Some j) \<Rightarrow> [tag_batch (snd (snd ic)) (fst (snd ic)) j]
         | _ \<Rightarrow> []))"

definition step_events ::
  "nat \<Rightarrow> collector \<Rightarrow> search_args \<Rightarrow> nat \<times> location_config \<times> string \<Rightarrow> event list"
  where
  "step_events total_searches self args ic =
     Scrape (params_for self args (snd ic))
       # (if fst ic + 1 < total_searches then [Sleep (delay_between_searches args)] else [])"

section \<open>An example run\<close>

text \<open>
  Two locations and two terms, a pause of two seconds; a Search Provider that always
  fails, and one whose first call returns one record, whose third call fails and whose
  other calls return nothing.
\<close>

definition example_args :: search_args where
  "example_args =
     \<lparr>search_terms = [''QA Engineer'', ''Tester''],
      locations = [\<lparr>location = ''Recife'', country = ''Brazil''\<rparr>,
                   \<lparr>location = ''Lisbon'', country = ''Portugal''\<rparr>],
      platforms = [''indeed''], results_per_term = 10, days_old = 7,
      output_filename = ''jobs'', delay_between_searches = 2,
      job_type = None, is_remote = None\<rparr>"

definition example_collector :: collector where
  "example_collector =
     \<lparr>the_scraper = \<lparr>verbose = 1, proxies = []\<rparr>,
      the_exporter = \<lparr>output_dir = ''results''\<rparr>\<rparr>"

definition example_io :: io_env where
  "example_io = \<lparr>now = ''20240101_120000'', to_csv_raises = None, open_raises = None\<rparr>"


definition one_batch_provider :: provider where
  "one_batch_provider i p =
     (if i = 0
      then Inr (Some \<lparr>columns = [''id'', ''title''], rows = [[PStr ''a1'', PStr ''QA'']]\<rparr>)
      else if i = 2 then Inl (OtherException ''connection reset'')
      else Inr None)"


section \<open>Properties\<close>

subsection \<open>Strings and floats\<close>

lemma str_nat_hd: "\<exists>d cs. d < 10 \<and> str_nat n = digit_char d # cs"
proof (induction n rule: str_nat.induct)
  case (1 n)
  show ?case
  proof (cases "n < 10")
    case True
    then show ?thesis by (subst str_nat.simps) auto
  next
    case False
    with 1 obtain d cs where "d < 10" "str_nat (n div 10) = digit_char d # cs" by auto
    with False show ?thesis by (subst str_nat.simps) auto
  qed
qed

lemma of_char_digit: "d < 10 \<Longrightarrow> of_char (digit_char d) = 48 + d"
  by (simp add: digit_char_def)

lemma lower_digit: "d < 10 \<Longrightarrow> lower_char (digit_char d) = digit_char d"
  by (simp add: lower_char_def of_char_digit)

lemma digit_not_n: 
  assumes "d < 10" shows "digit_char d \<noteq> CHR ''n''"
proof
  assume "digit_char d = CHR ''n''"
  then have "of_char (digit_char d) = (of_char (CHR ''n'') :: nat)" by simp
  with assms show False by (simp add: of_char_digit)
qed

lemma lower_minus: "lower_char (CHR ''-'') = CHR ''-''"
  by (simp add: lower_char_def)

lemma str_int_hd: "\<exists>c cs. str_int i = c # cs \<and> lower_char c \<noteq> CHR ''n''"
proof (cases "i < 0")
  case True
  then show ?thesis by (simp add: str_int_def lower_minus)
next
  case False
  obtain d cs where "d < 10" "str_nat (nat i) = digit_char d # cs"
    using str_nat_hd by blast
  with False show ?thesis by (simp add: str_int_def lower_digit digit_not_n)
qed

lemma lower_str_finite: "lower (str_float (FFinite m e)) \<noteq> ''nan''"
proof -
  obtain c cs where "str_int m = c # cs" "lower_char c \<noteq> CHR ''n''"
    using str_int_hd by blast
  then show ?thesis by (simp add: lower_def)
qed

lemma lower_nan: "lower ''nan'' = ''nan''"
  by (simp add: lower_def lower_char_def)

lemma lower_inf: "lower (str_float (FInf s)) \<noteq> ''nan''"
  by (simp add: lower_def lower_char_def)

lemma is_nan_iff: "is_nan f \<longleftrightarrow> f = FNaN"
  by (cases f) (simp_all add: is_nan_def lower_str_finite lower_inf del: str_float.simps)


lemma spec_normalize_invalid: "spec_normalize v = (if invalid_value v then PNone else v)"
  by (cases v) (simp_all add: invalid_value_def is_nan_iff is_invalid_string_def equals_ignoring_case_def lower_nan)


lemma nullify_keys: "map fst (nullify K d) = map fst d"
  by (induction d) (auto simp: nullify_def)

lemma nullify_nullify: "nullify K (nullify L d) = nullify (K \<union> L) d"
  by (induction d) (auto simp: nullify_def)

lemma nullify_absent: "k \<notin> fst ` set d \<Longrightarrow> nullify (insert k K) d = nullify K d"
  by (induction d) (auto simp: nullify_def)

lemma dict_set_nullify:
  "k \<in> fst ` set d \<Longrightarrow> distinct (map fst d) \<Longrightarrow> dict_set d k PNone = nullify {k} d"
proof (induction d)
  case Nil
  then show ?case by simp
next
  case (Cons a d)
  obtain k' v' where a: "a = (k', v')" by (cases a)
  show ?case
  proof (cases "k' = k")
    case True
    with Cons.prems a have "k \<notin> fst ` set d" by auto
    then have "nullify {k} d = nullify {} d" by (rule nullify_absent)
    also have "\<dots> = d" by (induction d) (auto simp: nullify_def)
    finally show ?thesis using True a by (simp add: nullify_def)
  next
    case False
    with Cons a show ?thesis by (auto simp: nullify_def)
  qed
qed

lemma clean_item_nullify:
  assumes "fst kv \<in> fst ` set d" "distinct (map fst d)"
  shows "clean_item kv d = nullify (if invalid_value (snd kv) then {fst kv} else {}) d"
proof -
  have e: "nullify {} d = d" by (induction d) (auto simp: nullify_def)
  obtain k v where kv: "kv = (k, v)" by (cases kv)
  show ?thesis using assms
    by (cases v) (simp_all add: kv clean_item_def invalid_value_def e dict_set_nullify)
qed

lemma fold_clean_item:
  "fst ` set xs \<subseteq> fst ` set d \<Longrightarrow> distinct (map fst d) \<Longrightarrow>
   fold clean_item xs d = nullify {k. \<exists>v. (k, v) \<in> set xs \<and> invalid_value v} d"
proof (induction xs arbitrary: d)
  case Nil
  show ?case by (induction d) (auto simp: nullify_def)
next
  case (Cons kv xs)
  let ?K = "if invalid_value (snd kv) then {fst kv} else {}"
  have 1: "clean_item kv d = nullify ?K d"
    using Cons.prems by (intro clean_item_nullify) auto
  have keys: "map fst (nullify ?K d) = map fst d" by (rule nullify_keys)
  have "fst ` set (nullify ?K d) = fst ` set d"
    using keys by (metis set_map)
  with Cons.prems have 2: "fst ` set xs \<subseteq> fst ` set (nullify ?K d)" by auto
  have 3: "distinct (map fst (nullify ?K d))" using keys Cons.prems by simp
  have "fold clean_item (kv # xs) d = fold clean_item xs (nullify ?K d)"
    using 1 by simp
  also have "\<dots> = nullify {k. \<exists>v. (k, v) \<in> set xs \<and> invalid_value v} (nullify ?K d)"
    using Cons.IH [OF 2 3] .
  also have "\<dots> = nullify ({k. \<exists>v. (k, v) \<in> set xs \<and> invalid_value v} \<union> ?K) d"
    by (rule nullify_nullify)
  also have "{k. \<exists>v. (k, v) \<in> set xs \<and> invalid_value v} \<union> ?K
        = {k. \<exists>v. (k, v) \<in> set (kv # xs) \<and> invalid_value v}"
    by (cases kv) auto
  finally show ?case .
qed

lemma clean_record_normalize:
  assumes "distinct (map fst record)"
  shows "clean_record record = map (\<lambda>(k, v). (k, spec_normalize v)) record"
proof -
  have "clean_record record = nullify {k. \<exists>v. (k, v) \<in> set record \<and> invalid_value v} record"
    unfolding clean_record_def using assms by (intro fold_clean_item) auto
  also have "\<dots> = map (\<lambda>(k, v). (k, spec_normalize v)) record"
    unfolding nullify_def
  proof (rule map_cong [OF refl])
    fix kv assume m: "kv \<in> set record"
    obtain k v where kv: "kv = (k, v)" by (cases kv)
    have "(\<exists>v'. (k, v') \<in> set record \<and> invalid_value v') \<longleftrightarrow> invalid_value v"
      using assms m kv by (metis eq_key_imp_eq_value)
    then show "(case kv of (k, v) \<Rightarrow> (k, if k \<in> {k. \<exists>v. (k, v) \<in> set record \<and> invalid_value v} then PNone else v))
       = (case kv of (k, v) \<Rightarrow> (k, spec_normalize v))"
      by (simp add: kv spec_normalize_invalid)
  qed
  finally show ?thesis .
qed

subsection \<open>The sweep of the Exporter\<close>

lemma nullify_empty: "nullify {} d = d"
  by (induction d) (auto simp: nullify_def)

lemma map_of_nullify: "k \<notin> K \<Longrightarrow> map_of (nullify K d) k = map_of d k"
  by (induction d) (auto simp: nullify_def)

lemma json_clean_key_nullify:
  assumes "k \<in> fst ` set d" "distinct (map fst d)" "map_of d k = Some v"
  shows "json_clean_key k d = nullify (if json_invalid v then {k} else {}) d"
  using assms
  by (cases v) (simp_all add: json_clean_key_def json_invalid_def nullify_empty dict_set_nullify)

lemma fold_json_clean_key:
  "set ks \<subseteq> fst ` set d \<Longrightarrow> distinct (map fst d) \<Longrightarrow> distinct ks \<Longrightarrow> set ks \<inter> K = {} \<Longrightarrow>
   fold json_clean_key ks (nullify K d)
     = nullify (K \<union> {k \<in> set ks. \<exists>v. map_of d k = Some v \<and> json_invalid v}) d"
proof (induction ks arbitrary: K)
  case Nil
  then show ?case by simp
next
  case (Cons k ks)
  let ?d = "nullify K d"
  have kd: "k \<in> fst ` set d" using Cons.prems by auto
  then obtain v where v: "map_of d k = Some v"
    by (metis domD dom_map_of_conv_image_fst)
  have kK: "k \<notin> K" using Cons.prems by auto
  have keys: "map fst ?d = map fst d" by (rule nullify_keys)
  have 1: "k \<in> fst ` set ?d" using kd keys by (metis set_map)
  have 2: "distinct (map fst ?d)" using keys Cons.prems by simp
  have 3: "map_of ?d k = Some v" using v kK by (simp add: map_of_nullify)
  let ?K1 = "if json_invalid v then {k} else {}"
  have "json_clean_key k ?d = nullify ?K1 ?d"
    using json_clean_key_nullify [OF 1 2 3] .
  also have "\<dots> = nullify (?K1 \<union> K) d" by (rule nullify_nullify)
  finally have step: "json_clean_key k ?d = nullify (?K1 \<union> K) d" .
  have disj: "set ks \<inter> (?K1 \<union> K) = {}" using Cons.prems by auto
  have "fold json_clean_key (k # ks) ?d = fold json_clean_key ks (nullify (?K1 \<union> K) d)"
    using step by simp
  also have "\<dots> = nullify ((?K1 \<union> K) \<union> {k \<in> set ks. \<exists>v. map_of d k = Some v \<and> json_invalid v}) d"
    using Cons.IH [OF _ Cons.prems(2) _ disj] Cons.prems by simp
  also have "(?K1 \<union> K) \<union> {k \<in> set ks. \<exists>v. map_of d k = Some v \<and> json_invalid v}
     = K \<union> {k' \<in> set (k # ks). \<exists>v. map_of d k' = Some v \<and> json_invalid v}"
    using v by auto
  finally show ?case .
qed

lemma clean_record_for_json_map:
  assumes "distinct (map fst r)"
  shows "clean_record_for_json r = map (\<lambda>(k, v). (k, if json_invalid v then PNone else v)) r"
proof -
  have "fold json_clean_key (map fst r) (nullify {} r)
     = nullify ({} \<union> {k \<in> set (map fst r). \<exists>v. map_of r k = Some v \<and> json_invalid v}) r"
    using assms by (intro fold_json_clean_key) auto
  then have "clean_record_for_json r
     = nullify {k \<in> set (map fst r). \<exists>v. map_of r k = Some v \<and> json_invalid v} r"
    by (simp add: clean_record_for_json_def nullify_empty)
  also have "\<dots> = map (\<lambda>(k, v). (k, if json_invalid v then PNone else v)) r"
    unfolding nullify_def
  proof (rule map_cong [OF refl])
    fix kv assume m: "kv \<in> set r"
    obtain k v where kv: "kv = (k, v)" by (cases kv)
    have "map_of r k = Some v" using assms m kv by simp
    then show "(case kv of (k, v) \<Rightarrow>
          (k, if k \<in> {k \<in> set (map fst r). \<exists>v. map_of r k = Some v \<and> json_invalid v} then PNone else v))
       = (case kv of (k, v) \<Rightarrow> (k, if json_invalid v then PNone else v))"
      using m kv by (auto simp: rev_image_eqI)
  qed
  finally show ?thesis .
qed

lemma strip_empty_iff: "strip s = [] \<longleftrightarrow> list_all py_isspace s"
proof
  assume "strip s = []"
  then have a: "list_all py_isspace (dropWhile py_isspace s)"
    by (simp add: strip_def dropWhile_eq_Nil_conv list_all_iff)
  have "dropWhile py_isspace s = []"
  proof (rule ccontr)
    assume n: "dropWhile py_isspace s \<noteq> []"
    then have "\<not> py_isspace (hd (dropWhile py_isspace s))" by (rule hd_dropWhile)
    moreover have "hd (dropWhile py_isspace s) \<in> set (dropWhile py_isspace s)"
      using n by simp
    ultimately show False using a by (simp add: list_all_iff)
  qed
  then show "list_all py_isspace s" by (simp add: dropWhile_eq_Nil_conv list_all_iff)
next
  assume "list_all py_isspace s"
  then have d: "dropWhile py_isspace s = []" by (simp add: dropWhile_eq_Nil_conv list_all_iff)
  show "strip s = []" unfolding strip_def d by simp
qed

lemma blank_not_nan:
  assumes "strip s = []" shows "lower s \<noteq> ''nan''"
proof
  assume l: "lower s = ''nan''"
  then obtain a b c where s: "s = [a, b, c]" and a: "lower_char a = CHR ''n''"
    by (auto simp: lower_def)
  from assms s have sp: "py_isspace a" by (simp add: strip_empty_iff)
  then have "lower_char a = a" by (auto simp: py_isspace_def lower_char_def)
  with a have "a = CHR ''n''" by simp
  with sp show False by (simp add: py_isspace_def)
qed

lemma json_invalid_rule:
  "(if json_invalid v then PNone else v) = (if blank_string v then v else spec_normalize v)"
proof (cases v)
  case (PFloat f)
  have "is_nan f \<longleftrightarrow> f = FNaN" by (rule is_nan_iff)
  then show ?thesis using PFloat by (simp add: json_invalid_def is_nan_def)
next
  case (PStr s)
  then show ?thesis
    by (auto simp: json_invalid_def equals_ignoring_case_def lower_nan blank_not_nan)
qed (simp_all add: json_invalid_def)

lemma spec_normalize_not_blank: "\<not> blank_string (spec_normalize v)"
  by (cases v) auto

lemma spec_normalize_idem: "spec_normalize (spec_normalize v) = spec_normalize v"
  by (cases v) auto

subsection \<open>Tables and duplicates\<close>




lemma first_seen_fold:
  "distinct acc \<Longrightarrow>
   distinct (fold (\<lambda>k acc. if k \<in> set acc then acc else acc @ [k]) ks acc)
   \<and> set (fold (\<lambda>k acc. if k \<in> set acc then acc else acc @ [k]) ks acc) = set acc \<union> set ks"
  by (induction ks arbitrary: acc) auto


lemma set_first_seen: "set (first_seen ks) = set ks"
  using first_seen_fold [of "[]" ks] by (simp add: first_seen_def)

lemma length_lay_out: "length (lay_out cols d) = length cols"
  by (simp add: lay_out_def)



subsection \<open>The shape of a cleaned table\<close>

lemma distinct_ESSENTIAL_COLUMNS: "distinct ESSENTIAL_COLUMNS"
  unfolding ESSENTIAL_COLUMNS_def by code_simp

lemma columns_filter_columns:
  "columns (filter_columns j) = filter (\<lambda>c. c \<in> set (columns j)) ESSENTIAL_COLUMNS"
  by (simp add: filter_columns_def Let_def)

lemma length_rows_filter_columns: "length (rows (filter_columns j)) = length (rows j)"
  by (simp add: filter_columns_def Let_def)

lemma wf_filter_columns: "wf_frame (filter_columns j)"
  using distinct_ESSENTIAL_COLUMNS
  by (simp add: filter_columns_def Let_def wf_frame_def list_all_iff length_lay_out)

lemma fold_first_seen_absorb:
  "set ks \<subseteq> set acc \<Longrightarrow> fold (\<lambda>k acc. if k \<in> set acc then acc else acc @ [k]) ks acc = acc"
  by (induction ks) auto

lemma fold_first_seen_distinct:
  "distinct (acc @ ks) \<Longrightarrow> fold (\<lambda>k acc. if k \<in> set acc then acc else acc @ [k]) ks acc = acc @ ks"
  by (induction ks arbitrary: acc) auto

lemma first_seen_repeated:
  assumes "distinct cols" "kss \<noteq> []" "list_all (\<lambda>ks. ks = cols) kss"
  shows "first_seen (concat kss) = cols"
proof -
  obtain rest where kss: "kss = cols # rest" and rest: "list_all (\<lambda>ks. ks = cols) rest"
    using assms by (cases kss) auto
  have sub: "set (concat rest) \<subseteq> set cols" using rest by (auto simp: list_all_iff)
  have "first_seen (concat kss)
      = fold (\<lambda>k acc. if k \<in> set acc then acc else acc @ [k]) (concat rest)
          (fold (\<lambda>k acc. if k \<in> set acc then acc else acc @ [k]) cols [])"
    by (simp add: first_seen_def kss)
  also have "fold (\<lambda>k acc. if k \<in> set acc then acc else acc @ [k]) cols [] = cols"
    using fold_first_seen_distinct [of "[]" cols] assms by simp
  also have "fold (\<lambda>k acc. if k \<in> set acc then acc else acc @ [k]) (concat rest) cols = cols"
    using sub by (rule fold_first_seen_absorb)
  finally show ?thesis .
qed

lemma lay_out_own_keys:
  assumes "distinct (map fst d)"
  shows "lay_out (map fst d) d = map snd d"
proof -
  have "\<And>kv. kv \<in> set d \<Longrightarrow> map_of d (fst kv) = Some (snd kv)"
    using assms by simp
  then show ?thesis by (simp add: lay_out_def)
qed

lemma keys_clean_record:
  "distinct (map fst d) \<Longrightarrow> map fst (clean_record d) = map fst d"
  by (simp add: clean_record_normalize case_prod_beta comp_def)

lemma from_records_same_keys:
  assumes "distinct cols" "ds \<noteq> []" "list_all (\<lambda>d. map fst d = cols) ds"
  shows "from_records ds = \<lparr>columns = cols, rows = map (map snd) ds\<rparr>"
proof -
  have "first_seen (concat (map (map fst) ds)) = cols"
    using assms by (intro first_seen_repeated) (auto simp: list_all_iff)
  moreover have "map (lay_out cols) ds = map (map snd) ds"
  proof (rule map_cong [OF refl])
    fix d assume "d \<in> set ds"
    with assms have k: "map fst d = cols" by (simp add: list_all_iff)
    with assms have "distinct (map fst d)" by simp
    then have "lay_out (map fst d) d = map snd d" by (rule lay_out_own_keys)
    with k show "lay_out cols d = map snd d" by simp
  qed
  ultimately show ?thesis by (simp add: from_records_def Let_def)
qed

lemma remove_invalid_values_shape:
  assumes "wf_frame f"
  shows "rows f \<noteq> [] \<Longrightarrow> columns (remove_invalid_values f) = columns f
           \<and> length (rows (remove_invalid_values f)) = length (rows f)"
    and "rows f = [] \<Longrightarrow> remove_invalid_values f = \<lparr>columns = [], rows = []\<rparr>"
proof -
  let ?ds = "clean_records (to_dict (na_to_none f))"
  have d: "distinct (columns f)" using assms by (simp add: wf_frame_def)
  have keys0: "list_all (\<lambda>d. map fst d = columns f) (to_dict (na_to_none f))"
    using assms by (auto simp: to_dict_def na_to_none_def wf_frame_def list_all_iff)
  have keys: "list_all (\<lambda>d. map fst d = columns f) ?ds"
    using keys0 d by (auto simp: clean_records_def list_all_iff keys_clean_record)
  have len: "length ?ds = length (rows f)"
    by (simp add: clean_records_def to_dict_def na_to_none_def)
  {
    assume n: "rows f \<noteq> []"
    then have "?ds \<noteq> []" using len by auto
    then have "from_records ?ds = \<lparr>columns = columns f, rows = map (map snd) ?ds\<rparr>"
      using d keys by (intro from_records_same_keys)
    then show "columns (remove_invalid_values f) = columns f
           \<and> length (rows (remove_invalid_values f)) = length (rows f)"
      using len by (simp add: remove_invalid_values_def)
  }
  {
    assume "rows f = []"
    then show "remove_invalid_values f = \<lparr>columns = [], rows = []\<rparr>"
      by (simp add: remove_invalid_values_def clean_records_def to_dict_def na_to_none_def
          from_records_def first_seen_def)
  }
qed

lemma cleaning_steps_shape:
  shows "rows (filter_columns (if ''description'' \<in> set (columns j) then description_gate j else j)) \<noteq> []
       \<Longrightarrow> columns (cleaning_steps j) = filter (\<lambda>c. c \<in> set (columns j)) ESSENTIAL_COLUMNS
         \<and> rows (cleaning_steps j) \<noteq> []"
    and "rows (filter_columns (if ''description'' \<in> set (columns j) then description_gate j else j)) = []
       \<Longrightarrow> cleaning_steps j = \<lparr>columns = [], rows = []\<rparr>"
proof -
  let ?j1 = "if ''description'' \<in> set (columns j) then description_gate j else j"
  have c1: "columns ?j1 = columns j" by (simp add: description_gate_def)
  have wf: "wf_frame (filter_columns ?j1)" by (rule wf_filter_columns)
  {
    assume n: "rows (filter_columns ?j1) \<noteq> []"
    from remove_invalid_values_shape(1) [OF wf n]
    show "columns (cleaning_steps j) = filter (\<lambda>c. c \<in> set (columns j)) ESSENTIAL_COLUMNS
         \<and> rows (cleaning_steps j) \<noteq> []"
      using n c1 by (auto simp: cleaning_steps_def columns_filter_columns)
  }
  {
    assume "rows (filter_columns ?j1) = []"
    from remove_invalid_values_shape(2) [OF wf this]
    show "cleaning_steps j = \<lparr>columns = [], rows = []\<rparr>"
      by (simp add: cleaning_steps_def)
  }
qed

lemma clean_cleaning_steps:
  "clean (Some j) =
     (if df_empty j then None
      else if df_empty (cleaning_steps j) then None else Some (cleaning_steps j))"
  by (simp add: clean_def cleaning_steps_def Let_def)

lemma clean_Some_shape:
  assumes "clean (Some j) = Some out"
  shows "out = cleaning_steps j" "\<not> df_empty out"
    "columns out = filter (\<lambda>c. c \<in> set (columns j)) ESSENTIAL_COLUMNS"
proof -
  from assms show o: "out = cleaning_steps j" and e: "\<not> df_empty out"
    by (auto simp: clean_cleaning_steps split: if_splits)
  let ?j1 = "if ''description'' \<in> set (columns j) then description_gate j else j"
  have "rows (filter_columns ?j1) \<noteq> []"
  proof
    assume "rows (filter_columns ?j1) = []"
    then have "cleaning_steps j = \<lparr>columns = [], rows = []\<rparr>" by (rule cleaning_steps_shape(2))
    with o e show False by (simp add: df_empty_def)
  qed
  then show "columns out = filter (\<lambda>c. c \<in> set (columns j)) ESSENTIAL_COLUMNS"
    using cleaning_steps_shape(1) [of j] o by simp
qed

subsection \<open>The document writer\<close>




lemma encode_value_unrecognized:
  "unrecognized v \<Longrightarrow> encode_value v = Inl (TypeError (type_name v))"
  by (cases v) (simp_all add: encode_value_def pd_isna_def)









subsection \<open>The export\<close>

lemma export_json_mem_jobs: "mem_jobs (snd (export_json io filename st)) = mem_jobs st"
  by (simp add: export_json_def Let_def split: option.splits sum.splits)

lemma export_csv_mem_jobs: "mem_jobs (snd (export_csv io filename st)) = mem_jobs st"
  by (simp add: export_csv_def split: option.splits)

lemma export_Some:
  assumes "\<not> df_empty j"
  shows "export io self (Some j) base =
     (case to_csv_raises io of
        Some e \<Rightarrow> \<lparr>success = False, reported = Some e, jobs_after = Some j, files_written = []\<rparr>
      | None \<Rightarrow>
         (case open_raises io of
            Some e \<Rightarrow> \<lparr>success = False, reported = Some e, jobs_after = Some j,
                       files_written = [(output_dir self @ ''/'' @ base @ ''_'' @ now io @ ''.csv'', CsvFile j)]\<rparr>
          | None \<Rightarrow>
             (case json_dump (clean_for_json (to_dict j)) of
                Inl e \<Rightarrow> \<lparr>success = False, reported = Some e, jobs_after = Some j,
                       files_written = [(output_dir self @ ''/'' @ base @ ''_'' @ now io @ ''.csv'', CsvFile j),
                                        (output_dir self @ ''/'' @ base @ ''_'' @ now io @ ''.json'', JsonTruncated)]\<rparr>
              | Inr doc \<Rightarrow> \<lparr>success = True, reported = None, jobs_after = Some j,
                       files_written = [(output_dir self @ ''/'' @ base @ ''_'' @ now io @ ''.csv'', CsvFile j),
                                        (output_dir self @ ''/'' @ base @ ''_'' @ now io @ ''.json'', JsonFile doc)]\<rparr>)))"
  using assms
  by (simp add: export_def export_csv_def export_json_def Let_def split: option.splits sum.splits)



subsection \<open>The search loop\<close>

lemma calls_of_append: "calls_of (xs @ ys) = calls_of xs @ calls_of ys"
  by (induction xs rule: calls_of.induct) simp_all

lemma search_loop_flat:
  "search_loop scrape_jobs self args n s
     = fold (\<lambda>c. search_step scrape_jobs self args n (fst c) (snd c)) (combinations args) s"
proof -
  have inner: "fold (search_step scrape_jobs self args n lc) ts s'
      = fold (\<lambda>c. search_step scrape_jobs self args n (fst c) (snd c)) (map (\<lambda>t. (lc, t)) ts) s'"
    for lc ts s'
    by (simp add: fold_map comp_def)
  have "fold (\<lambda>lc. fold (search_step scrape_jobs self args n lc) ts) lcs s
      = fold (\<lambda>c. search_step scrape_jobs self args n (fst c) (snd c))
          (concat (map (\<lambda>lc. map (\<lambda>t. (lc, t)) ts) lcs)) s" for ts lcs
    by (induction lcs arbitrary: s) (simp_all add: inner)
  then show ?thesis by (simp add: search_loop_def combinations_def)
qed

lemma search_result:
  "search sj sc t loc sites ctry wanted days jtype remote tr
     = (case sj (length (calls_of tr))
               (build_params sc t loc (if sites = [] then DEFAULT_PLATFORMS else sites) ctry wanted days jtype remote) of
          Inr (Some j) \<Rightarrow> if rows j = [] \<or> print_results sc (Some j) \<noteq> None then None else Some j
        | _ \<Rightarrow> None,
        tr @ [Scrape (build_params sc t loc (if sites = [] then DEFAULT_PLATFORMS else sites) ctry wanted days jtype remote)])"
  by (auto simp: search_def invoke_def Let_def print_results_def split: sum.splits option.splits)

lemma search_step_effect:
  "search_step scrape_jobs self args n lc t s
     = \<lparr>all_jobs = all_jobs s @ batch_of scrape_jobs self args (length (calls_of (trace s)), lc, t),
        current_search = current_search s + 1,
        trace = trace s @ step_events n self args (current_search s, lc, t)\<rparr>"
proof -
  let ?p = "params_for self args (lc, t)"
  let ?i = "length (calls_of (trace s))"
  have s: "search scrape_jobs (the_scraper self) t (location lc)
               (platforms args) (country lc) (results_per_term args) (days_old args)
               (job_type args) (is_remote args) (trace s)
      = (case scrape_jobs ?i ?p of
           Inr (Some j) \<Rightarrow>
             if rows j = [] \<or> print_results (the_scraper self) (Some j) \<noteq> None then None else Some j
         | _ \<Rightarrow> None,
         trace s @ [Scrape ?p])"
    by (simp add: search_result params_for_def)
  show ?thesis
  proof (cases "scrape_jobs ?i ?p")
    case (Inl e)
    then show ?thesis
      unfolding search_step_def by (simp add: s batch_of_def step_events_def Let_def)
  next
    case (Inr jobs)
    show ?thesis
    proof (cases jobs)
      case None
      with Inr show ?thesis
        unfolding search_step_def by (simp add: s batch_of_def step_events_def Let_def)
    next
      case (Some j)
      with Inr show ?thesis
        unfolding search_step_def
        by (auto simp: s batch_of_def step_events_def Let_def df_empty_def)
    qed
  qed
qed

lemma calls_of_step_events: "calls_of (step_events n self args ic) = [params_for self args (snd ic)]"
  by (simp add: step_events_def)

lemma fold_search_step:
  "length (calls_of (trace s)) = current_search s \<Longrightarrow>
   fold (\<lambda>c. search_step scrape_jobs self args n (fst c) (snd c)) cs s
     = \<lparr>all_jobs = all_jobs s @ concat (map (batch_of scrape_jobs self args) (enumerate (current_search s) cs)),
        current_search = current_search s + length cs,
        trace = trace s @ concat (map (step_events n self args) (enumerate (current_search s) cs))\<rparr>"
proof (induction cs arbitrary: s)
  case Nil
  show ?case by simp
next
  case (Cons c cs)
  let ?F = "\<lambda>c. search_step scrape_jobs self args n (fst c) (snd c)"
  let ?R = "\<lparr>all_jobs = all_jobs s @ batch_of scrape_jobs self args (current_search s, c),
        current_search = current_search s + 1,
        trace = trace s @ step_events n self args (current_search s, c)\<rparr>"
  have step: "?F c s = ?R"
    using search_step_effect [of scrape_jobs self args n "fst c" "snd c" s] Cons.prems by simp
  have inv: "length (calls_of (trace ?R)) = current_search ?R"
    using Cons.prems by (simp add: calls_of_append calls_of_step_events)
  have "fold ?F (c # cs) s = fold ?F cs (?F c s)" by simp
  also have "\<dots> = fold ?F cs ?R" by (simp only: step)
  also have "\<dots> = \<lparr>all_jobs = all_jobs ?R @ concat (map (batch_of scrape_jobs self args) (enumerate (current_search ?R) cs)),
        current_search = current_search ?R + length cs,
        trace = trace ?R @ concat (map (step_events n self args) (enumerate (current_search ?R) cs))\<rparr>"
    using inv by (rule Cons.IH)
  also have "\<dots> = \<lparr>all_jobs = all_jobs s @ concat (map (batch_of scrape_jobs self args) (enumerate (current_search s) (c # cs))),
        current_search = current_search s + length (c # cs),
        trace = trace s @ concat (map (step_events n self args) (enumerate (current_search s) (c # cs)))\<rparr>"
    by simp
  finally show ?case .
qed

lemma length_combinations:
  "length (combinations args) = length (search_terms args) * length (locations args)"
  by (simp add: combinations_def length_concat comp_def sum_list_triv)

lemma paced_step_events:
  "k + length cs = n \<Longrightarrow>
   concat (map (step_events n self args) (enumerate k cs))
     = paced (delay_between_searches args) (map (params_for self args) cs)"
proof (induction cs arbitrary: k)
  case Nil
  show ?case by simp
next
  case (Cons c cs)
  have split: "concat (map (step_events n self args) (enumerate k (c # cs)))
      = step_events n self args (k, c) @ concat (map (step_events n self args) (enumerate (Suc k) cs))"
    by simp
  show ?case
  proof (cases cs)
    case Nil
    with Cons.prems have "step_events n self args (k, c) = [Scrape (params_for self args c)]"
      by (simp add: step_events_def)
    with Nil show ?thesis unfolding split by simp
  next
    case (Cons c' cs')
    have "Suc k + length cs = n" using Cons.prems by simp
    then have ih: "concat (map (step_events n self args) (enumerate (Suc k) cs))
        = paced (delay_between_searches args) (map (params_for self args) cs)"
      by (rule Cons.IH)
    have "k + 1 < n" using Cons.prems Cons by simp
    then have hd: "step_events n self args (k, c)
        = [Scrape (params_for self args c), Sleep (delay_between_searches args)]"
      by (simp add: step_events_def)
    show ?thesis unfolding split ih hd using Cons by simp
  qed
qed

lemma calls_of_paced: "calls_of (paced d ps) = ps"
  by (induction d ps rule: paced.induct) simp_all

lemma pauses_of_paced: "pauses_of (paced d ps) = replicate (length ps - 1) d"
  by (induction d ps rule: paced.induct) simp_all

lemma batches_of_batch_of:
  "batches_of scrape_jobs self args
     = concat (map (batch_of scrape_jobs self args) (enumerate 0 (combinations args)))"
proof -
  have "(\<lambda>(i, c).
        if no_records (the_scraper self) (scrape_jobs i (params_for self args c)) then []
        else
          (case scrape_jobs i (params_for self args c) of
             Inr (Some j) \<Rightarrow> [tag_batch (snd c) (fst c) j]
           | _ \<Rightarrow> [])) = batch_of scrape_jobs self args"
    by (rule ext) (simp add: batch_of_def case_prod_beta)
  then show ?thesis by (simp add: batches_of_def)
qed

lemma loop_result:
  "search_loop scrape_jobs self args (length (search_terms args) * length (locations args))
      \<lparr>all_jobs = [], current_search = 0, trace = []\<rparr>
     = \<lparr>all_jobs = batches_of scrape_jobs self args,
        current_search = length (combinations args),
        trace = paced (delay_between_searches args) (map (params_for self args) (combinations args))\<rparr>"
proof -
  have "0 + length (combinations args) = length (search_terms args) * length (locations args)"
    by (simp add: length_combinations)
  then have "concat (map (step_events (length (search_terms args) * length (locations args)) self args)
        (enumerate 0 (combinations args)))
      = paced (delay_between_searches args) (map (params_for self args) (combinations args))"
    by (rule paced_step_events)
  then show ?thesis
    by (simp add: search_loop_flat fold_search_step batches_of_batch_of)
qed


lemma events_collect_and_export:
  "events (collect_and_export scrape_jobs io self args)
     = paced (delay_between_searches args) (map (params_for self args) (combinations args))"
  by (simp add: collect_and_export_def Let_def loop_result case_prod_beta)

lemma params_for_fields:
  "kw_search_term (params_for self args c) = snd c"
  "kw_location (params_for self args c) = location (fst c)"
  "kw_country_indeed (params_for self args c) = country (fst c)"
  by (simp_all add: params_for_def build_params_def)


subsection \<open>The columns of the written files\<close>

lemma keys_encode_items: "encode_items d = Inr js \<Longrightarrow> map fst js = map fst d"
proof (induction d arbitrary: js)
  case Nil
  then show ?case by simp
next
  case (Cons kv d)
  obtain k v where kv: "kv = (k, v)" by (cases kv)
  from Cons.prems kv obtain j js' where "encode_items d = Inr js'" "js = (k, j) # js'"
    by (auto split: sum.splits)
  with Cons.IH kv show ?case by simp
qed

lemma keys_json_dump: "json_dump ds = Inr doc \<Longrightarrow> map (map fst) doc = map (map fst) ds"
proof (induction ds arbitrary: doc)
  case Nil
  then show ?case by simp
next
  case (Cons d ds)
  from Cons.prems obtain obj objs where "encode_items d = Inr obj" "json_dump ds = Inr objs"
    "doc = obj # objs"
    by (auto split: sum.splits)
  with Cons.IH keys_encode_items [of d obj] show ?case by simp
qed

lemma keys_clean_record_for_json:
  "distinct (map fst r) \<Longrightarrow> map fst (clean_record_for_json r) = map fst r"
  by (simp add: clean_record_for_json_map case_prod_beta comp_def)

lemma keys_swept:
  assumes "wf_frame f"
  shows "list_all (\<lambda>d. map fst d = columns f) (clean_for_json (to_dict f))"
proof -
  have "\<And>r. r \<in> set (rows f) \<Longrightarrow> map fst (zip (columns f) r) = columns f"
    using assms by (simp add: wf_frame_def list_all_iff)
  moreover have "distinct (columns f)" using assms by (simp add: wf_frame_def)
  ultimately show ?thesis
    by (auto simp: clean_for_json_def to_dict_def list_all_iff keys_clean_record_for_json)
qed

lemma wf_remove_invalid_values:
  assumes "wf_frame f"
  shows "wf_frame (remove_invalid_values f)"
proof (cases "rows f = []")
  case True
  then have "remove_invalid_values f = \<lparr>columns = [], rows = []\<rparr>"
    using assms by (intro remove_invalid_values_shape(2))
  then show ?thesis by (simp add: wf_frame_def)
next
  case False
  let ?ds = "clean_records (to_dict (na_to_none f))"
  have d: "distinct (columns f)" using assms by (simp add: wf_frame_def)
  have keys0: "list_all (\<lambda>d. map fst d = columns f) (to_dict (na_to_none f))"
    using assms by (auto simp: to_dict_def na_to_none_def wf_frame_def list_all_iff)
  have keys: "list_all (\<lambda>d. map fst d = columns f) ?ds"
    using keys0 d by (auto simp: clean_records_def list_all_iff keys_clean_record)
  have "?ds \<noteq> []" using False by (simp add: clean_records_def to_dict_def na_to_none_def)
  then have fr: "from_records ?ds = \<lparr>columns = columns f, rows = map (map snd) ?ds\<rparr>"
    using d keys by (intro from_records_same_keys)
  have len: "length x = length (columns f)" if "x \<in> set ?ds" for x
  proof -
    from keys that have "map fst x = columns f" by (simp add: list_all_iff)
    then have "length (map fst x) = length (columns f)" by (rule arg_cong)
    then show ?thesis by simp
  qed
  have "wf_frame \<lparr>columns = columns f, rows = map (map snd) ?ds\<rparr>"
    using d len by (simp add: wf_frame_def list_all_iff)
  then show ?thesis by (simp only: remove_invalid_values_def fr)
qed

lemma wf_clean:
  assumes "clean (Some j) = Some out"
  shows "wf_frame out"
proof -
  have o: "out = cleaning_steps j" using assms by (rule clean_Some_shape(1))
  have "wf_frame (cleaning_steps j)"
    unfolding cleaning_steps_def by (rule wf_remove_invalid_values) (rule wf_filter_columns)
  then show ?thesis by (simp only: o)
qed

lemma exported_columns:
  assumes "wf_frame out"
  shows "(p, CsvFile f) \<in> set (files_written (export io self (Some out) base)) \<Longrightarrow> f = out"
    and "(p, JsonFile doc) \<in> set (files_written (export io self (Some out) base))
           \<Longrightarrow> list_all (\<lambda>obj. map fst obj = columns out) doc"
proof -
  show "f = out" if c: "(p, CsvFile f) \<in> set (files_written (export io self (Some out) base))"
  proof (cases "df_empty out")
    case True
    with c show ?thesis by (simp add: export_def)
  next
    case False
    from c show ?thesis
      unfolding export_Some [OF False]
      by (cases "to_csv_raises io"; cases "open_raises io";
          cases "json_dump (clean_for_json (to_dict out))") simp_all
  qed
  assume a: "(p, JsonFile doc) \<in> set (files_written (export io self (Some out) base))"
  have ne: "\<not> df_empty out"
  proof
    assume "df_empty out"
    with a show False by (simp add: export_def)
  qed
  from a have "json_dump (clean_for_json (to_dict out)) = Inr doc"
    unfolding export_Some [OF ne]
    by (cases "to_csv_raises io"; cases "open_raises io";
        cases "json_dump (clean_for_json (to_dict out))") simp_all
  then have "map (map fst) doc = map (map fst) (clean_for_json (to_dict out))"
    by (rule keys_json_dump)
  moreover have "\<And>d. d \<in> set (clean_for_json (to_dict out)) \<Longrightarrow> map fst d = columns out"
    using keys_swept [OF assms] by (simp add: list_all_iff)
  ultimately have "\<And>ks. ks \<in> set (map (map fst) doc) \<Longrightarrow> ks = columns out"
    by auto
  then show "list_all (\<lambda>obj. map fst obj = columns out) doc"
    by (simp add: list_all_iff)
qed

subsection \<open>The claims\<close>

text \<open>
  C2. For every record and every field of it, the cleaning step rewrites to null a float
  that is not-a-number, a string that is empty after trimming and a string that equals
  "nan" without regard to case, and leaves every other value as it is; the keys and
  their order stay. The records are Python dicts, so the keys of a record are distinct.
\<close>

theorem clean_records_normalize_every_field:
  assumes "list_all (\<lambda>record. distinct (map fst record)) jobs_dict"
  shows "clean_records jobs_dict = map (map (\<lambda>(k, v). (k, spec_normalize v))) jobs_dict"
  unfolding clean_records_def
proof (rule map_cong [OF refl])
  fix r assume "r \<in> set jobs_dict"
  with assms have "distinct (map fst r)" by (simp add: list_all_iff)
  then show "clean_record r = map (\<lambda>(k, v). (k, spec_normalize v)) r"
    by (rule clean_record_normalize)
qed

theorem clean_records_normalize_every_field_witness:
  "clean_records
     [[(''title'', PStr ''NaN''), (''min_amount'', PFloat FNaN), (''company'', PStr ''  ''),
       (''site'', PStr ''indeed''), (''max_amount'', PFloat (FFinite 3 1)), (''is_remote'', PBool True)]]
   = [[(''title'', PNone), (''min_amount'', PNone), (''company'', PNone),
       (''site'', PStr ''indeed''), (''max_amount'', PFloat (FFinite 3 1)), (''is_remote'', PBool True)]]"
proof -
  let ?d = "[[(''title'', PStr ''NaN''), (''min_amount'', PFloat FNaN), (''company'', PStr ''  ''),
       (''site'', PStr ''indeed''), (''max_amount'', PFloat (FFinite 3 1)), (''is_remote'', PBool True)]]"
  have d: "list_all (\<lambda>r. distinct (map fst r)) ?d" by simp
  have e: "map (map (\<lambda>(k, v). (k, spec_normalize v))) ?d
     = [[(''title'', PNone), (''min_amount'', PNone), (''company'', PNone),
       (''site'', PStr ''indeed''), (''max_amount'', PFloat (FFinite 3 1)), (''is_remote'', PBool True)]]"
    by code_simp
  show ?thesis
    using clean_records_normalize_every_field [OF d] e by simp
qed

text \<open>
  C6, as amended. The sweep of the Exporter before the document is written rewrites to
  null a float that is not-a-number and a string that equals "nan" without regard to
  case, as the rule of the Cleaner does, and agrees with that rule on every other value
  but one kind: a string that is empty after trimming stays as it is in the sweep, where
  the Cleaner makes it null. On records the Cleaner has normalized the sweep changes
  nothing.
\<close>

theorem exporter_sweep_agrees_except_blank_strings:
  assumes "list_all (\<lambda>r. distinct (map fst r)) jobs_dict"
  shows "clean_for_json jobs_dict
           = map (map (\<lambda>(k, v). (k, if blank_string v then v else spec_normalize v))) jobs_dict
         \<and> clean_for_json (clean_records jobs_dict) = clean_records jobs_dict"
proof
  show a: "clean_for_json jobs_dict
      = map (map (\<lambda>(k, v). (k, if blank_string v then v else spec_normalize v))) jobs_dict"
    unfolding clean_for_json_def
  proof (rule map_cong [OF refl])
    fix r assume "r \<in> set jobs_dict"
    with assms have "distinct (map fst r)" by (simp add: list_all_iff)
    then have "clean_record_for_json r = map (\<lambda>(k, v). (k, if json_invalid v then PNone else v)) r"
      by (rule clean_record_for_json_map)
    then show "clean_record_for_json r
       = map (\<lambda>(k, v). (k, if blank_string v then v else spec_normalize v)) r"
      by (simp add: json_invalid_rule)
  qed
  show "clean_for_json (clean_records jobs_dict) = clean_records jobs_dict"
    unfolding clean_for_json_def clean_records_def map_map
  proof (rule map_cong [OF refl])
    fix r assume "r \<in> set jobs_dict"
    with assms have d: "distinct (map fst r)" by (simp add: list_all_iff)
    have c: "clean_record r = map (\<lambda>(k, v). (k, spec_normalize v)) r"
      using d by (rule clean_record_normalize)
    have "map fst (clean_record r) = map fst r" unfolding c by (induction r) auto
    with d have "distinct (map fst (clean_record r))" by simp
    then have "clean_record_for_json (clean_record r)
       = map (\<lambda>(k, v). (k, if json_invalid v then PNone else v)) (clean_record r)"
      by (rule clean_record_for_json_map)
    also have "\<dots> = clean_record r"
      unfolding c by (induction r) (auto simp: json_invalid_rule spec_normalize_not_blank spec_normalize_idem)
    finally show "(clean_record_for_json \<circ> clean_record) r = clean_record r" by simp
  qed
qed

theorem exporter_sweep_agrees_except_blank_strings_witness:
  "clean_for_json [[(''title'', PStr ''NAN''), (''min_amount'', PFloat FNaN),
       (''company'', PStr ''  ''), (''site'', PStr ''indeed'')]]
     = [[(''title'', PNone), (''min_amount'', PNone),
       (''company'', PStr ''  ''), (''site'', PStr ''indeed'')]]"
proof -
  let ?d = "[[(''title'', PStr ''NAN''), (''min_amount'', PFloat FNaN),
       (''company'', PStr ''  ''), (''site'', PStr ''indeed'')]]"
  have d: "list_all (\<lambda>r. distinct (map fst r)) ?d" by simp
  have e: "map (map (\<lambda>(k, v). (k, if blank_string v then v else spec_normalize v))) ?d
     = [[(''title'', PNone), (''min_amount'', PNone),
       (''company'', PStr ''  ''), (''site'', PStr ''indeed'')]]"
    by code_simp
  show ?thesis
    using exporter_sweep_agrees_except_blank_strings [OF d] e by simp
qed

text \<open>
  C6 as stated fails: on a field holding a string of two spaces the sweep of the
  Exporter and the cleaning step of the Cleaner give different records.
\<close>

theorem exporter_sweep_differs_on_blank_strings_counterexample:
  "clean_for_json [[(''title'', PStr ''  '')]] \<noteq> clean_records [[(''title'', PStr ''  '')]]"
  by code_simp



text \<open>
  C10. The table the Cleaner returns has its columns in the order of the allow-list:
  they are \<^verbatim>\<open>ESSENTIAL_COLUMNS\<close> restricted to the labels of the input, so a
  subsequence of the allow-list, whatever the order of the columns of the input. The
  files an export of that table writes have the same columns in the same order: the
  tabular file holds the table, and every object of the document has the columns as
  its keys.
\<close>

theorem cleaner_columns_in_allow_list_order:
  assumes "clean (Some jobs) = Some out"
  shows "columns out = filter (\<lambda>c. c \<in> set (columns jobs)) ESSENTIAL_COLUMNS
       \<and> subseq (columns out) ESSENTIAL_COLUMNS
       \<and> (\<forall>jobs' out'. set (columns jobs') = set (columns jobs) \<longrightarrow>
            clean (Some jobs') = Some out' \<longrightarrow> columns out' = columns out)
       \<and> (\<forall>io self base p f.
            (p, CsvFile f) \<in> set (files_written (export io self (Some out) base)) \<longrightarrow>
            columns f = columns out)
       \<and> (\<forall>io self base p doc.
            (p, JsonFile doc) \<in> set (files_written (export io self (Some out) base)) \<longrightarrow>
            list_all (\<lambda>obj. map fst obj = columns out) doc)"
proof -
  have c: "columns out = filter (\<lambda>c. c \<in> set (columns jobs)) ESSENTIAL_COLUMNS"
    using assms by (rule clean_Some_shape(3))
  then have s: "subseq (columns out) ESSENTIAL_COLUMNS" by simp
  have i: "\<forall>jobs' out'. set (columns jobs') = set (columns jobs) \<longrightarrow>
            clean (Some jobs') = Some out' \<longrightarrow> columns out' = columns out"
    using c by (auto dest: clean_Some_shape(3))
  have wf: "wf_frame out" using assms by (rule wf_clean)
  have e1: "\<forall>io self base p f.
            (p, CsvFile f) \<in> set (files_written (export io self (Some out) base)) \<longrightarrow>
            columns f = columns out"
    using exported_columns(1) [OF wf] by blast
  have e2: "\<forall>io self base p doc.
            (p, JsonFile doc) \<in> set (files_written (export io self (Some out) base)) \<longrightarrow>
            list_all (\<lambda>obj. map fst obj = columns out) doc"
    using exported_columns(2) [OF wf] by blast
  from c s i e1 e2 show ?thesis by blast
qed

theorem cleaner_columns_in_allow_list_order_witness:
  "columns (the (clean (Some
      \<lparr>columns = [''description'', ''salary'', ''title'', ''id''],
       rows = [[PStr ''Tests software'', PInt 10, PStr ''QA'', PStr ''a1'']]\<rparr>)))
     = [''id'', ''title'', ''description'']"
proof -
  let ?j = "\<lparr>columns = [''description'', ''salary'', ''title'', ''id''],
       rows = [[PStr ''Tests software'', PInt 10, PStr ''QA'', PStr ''a1'']]\<rparr>"
  let ?o = "\<lparr>columns = [''id'', ''title'', ''description''],
       rows = [[PStr ''a1'', PStr ''QA'', PStr ''Tests software'']]\<rparr>"
  have c: "clean (Some ?j) = Some ?o" by code_simp
  have f: "filter (\<lambda>c. c \<in> set (columns ?j)) ESSENTIAL_COLUMNS = [''id'', ''title'', ''description'']"
    by code_simp
  show ?thesis
    using cleaner_columns_in_allow_list_order [OF c, THEN conjunct1] f c by simp
qed

text \<open>
  C5, as amended. For an input that becomes empty after the cleaning steps the Cleaner
  returns \<^verbatim>\<open>None\<close>, never an empty table; it returns the same \<^verbatim>\<open>None\<close> for an
  absent and for an empty input, so the returned value does not tell the two apart. A
  table it returns is the result of the cleaning steps and is not empty. For an input
  that is not empty, \<^verbatim>\<open>None\<close> is returned exactly when the table has a description
  column and no row has a description, or when no column is on the allow-list.
\<close>

theorem cleaner_returns_none_when_nothing_is_left:
  "clean None = None
   \<and> (df_empty j \<longrightarrow> clean (Some j) = None)
   \<and> (df_empty (cleaning_steps j) \<longrightarrow> clean (Some j) = None)
   \<and> (\<forall>out. clean (Some j) = Some out \<longrightarrow> out = cleaning_steps j \<and> \<not> df_empty out)
   \<and> (\<not> df_empty j \<longrightarrow>
        (clean (Some j) = None \<longleftrightarrow>
           (''description'' \<in> set (columns j) \<and> list_all (\<lambda>r. \<not> has_description j r) (rows j))
           \<or> filter (\<lambda>c. c \<in> set (columns j)) ESSENTIAL_COLUMNS = []))"
proof -
  let ?j1 = "if ''description'' \<in> set (columns j) then description_gate j else j"
  let ?A = "''description'' \<in> set (columns j) \<and> list_all (\<lambda>r. \<not> has_description j r) (rows j)"
  let ?B = "filter (\<lambda>c. c \<in> set (columns j)) ESSENTIAL_COLUMNS = []"
  have 1: "clean None = None" by (simp add: clean_def)
  have 2: "df_empty j \<longrightarrow> clean (Some j) = None" by (simp add: clean_cleaning_steps)
  have 3: "df_empty (cleaning_steps j) \<longrightarrow> clean (Some j) = None" by (simp add: clean_cleaning_steps)
  have 4: "\<forall>out. clean (Some j) = Some out \<longrightarrow> out = cleaning_steps j \<and> \<not> df_empty out"
    using clean_Some_shape(1,2) by blast
  have 5: "clean (Some j) = None \<longleftrightarrow> ?A \<or> ?B" if ne: "\<not> df_empty j"
  proof -
    have r: "rows j \<noteq> []" using ne by (simp add: df_empty_def)
    have rows1: "rows (filter_columns ?j1) = [] \<longleftrightarrow> ?A"
    proof -
      have "rows (filter_columns ?j1) = [] \<longleftrightarrow> rows ?j1 = []"
        using length_rows_filter_columns [of ?j1] by (metis length_0_conv)
      also have "\<dots> \<longleftrightarrow> ?A"
        using r by (auto simp: description_gate_def filter_empty_conv list_all_iff)
      finally show ?thesis .
    qed
    show ?thesis
    proof (cases "rows (filter_columns ?j1) = []")
      case True
      then have "cleaning_steps j = \<lparr>columns = [], rows = []\<rparr>" by (rule cleaning_steps_shape(2))
      then have "clean (Some j) = None" by (simp add: clean_cleaning_steps df_empty_def)
      with True rows1 show ?thesis by simp
    next
      case False
      then have "columns (cleaning_steps j) = filter (\<lambda>c. c \<in> set (columns j)) ESSENTIAL_COLUMNS"
        and "rows (cleaning_steps j) \<noteq> []"
        using cleaning_steps_shape(1) [of j] by simp_all
      then have "df_empty (cleaning_steps j) \<longleftrightarrow> ?B" by (simp add: df_empty_def)
      with ne have "clean (Some j) = None \<longleftrightarrow> ?B" by (simp add: clean_cleaning_steps)
      with False rows1 show ?thesis by blast
    qed
  qed
  from 1 2 3 4 5 show ?thesis by blast
qed

theorem cleaner_returns_none_when_nothing_is_left_witness:
  "clean (Some \<lparr>columns = [''id'', ''description''], rows = [[PStr ''a1'', PNone], [PStr ''b2'', PStr '''']]\<rparr>) = None
   \<and> \<not> df_empty (cleaning_steps \<lparr>columns = [''id'', ''description''], rows = [[PStr ''a1'', PStr ''Tests software'']]\<rparr>)"
proof -
  let ?x = "\<lparr>columns = [''id'', ''description''], rows = [[PStr ''a1'', PNone], [PStr ''b2'', PStr '''']]\<rparr>"
  let ?y = "\<lparr>columns = [''id'', ''description''], rows = [[PStr ''a1'', PStr ''Tests software'']]\<rparr>"
  have x: "df_empty (cleaning_steps ?x)" by code_simp
  have y: "clean (Some ?y) = Some ?y" by code_simp
  show ?thesis
    using cleaner_returns_none_when_nothing_is_left [of ?x] cleaner_returns_none_when_nothing_is_left [of ?y] x y
    by simp
qed

text \<open>
  C5 as stated fails: a table with one row whose description is the empty string is
  not empty and becomes empty after the cleaning steps; the Cleaner returns for it what
  it returns for an absent input and for an empty table.
\<close>

theorem cleaner_no_data_not_distinguished_counterexample:
  "\<not> df_empty \<lparr>columns = [''id'', ''description''], rows = [[PStr ''a1'', PStr '''']]\<rparr>
   \<and> df_empty (cleaning_steps \<lparr>columns = [''id'', ''description''], rows = [[PStr ''a1'', PStr '''']]\<rparr>)
   \<and> clean (Some \<lparr>columns = [''id'', ''description''], rows = [[PStr ''a1'', PStr '''']]\<rparr>) = clean None
   \<and> clean (Some \<lparr>columns = [''id'', ''description''], rows = [[PStr ''a1'', PStr '''']]\<rparr>)
       = clean (Some \<lparr>columns = [], rows = []\<rparr>)"
  by code_simp



text \<open>
  C9. The export leaves the caller's record set as it was, whether it succeeds or
  fails: neither the writing of the tabular file nor that of the document touches the
  table (the sweep works on the dicts made from it). The export returns true exactly
  when the set is not empty and both files were written; an error of the file system
  or of the serialization gives the result false, with the error reported.
\<close>

theorem export_keeps_record_set:
  "jobs_after (export io self jobs base) = jobs
   \<and> (\<forall>f st. mem_jobs (snd (export_csv io f st)) = mem_jobs st
             \<and> mem_jobs (snd (export_json io f st)) = mem_jobs st)
   \<and> (success (export io self jobs base) \<longleftrightarrow>
        (\<exists>j doc. jobs = Some j \<and> \<not> df_empty j \<and> to_csv_raises io = None \<and> open_raises io = None
           \<and> json_dump (clean_for_json (to_dict j)) = Inr doc))
   \<and> (\<forall>j e. jobs = Some j \<longrightarrow> \<not> df_empty j \<longrightarrow>
         (to_csv_raises io = Some e
          \<or> (to_csv_raises io = None \<and> open_raises io = Some e)
          \<or> (to_csv_raises io = None \<and> open_raises io = None
               \<and> json_dump (clean_for_json (to_dict j)) = Inl e)) \<longrightarrow>
         \<not> success (export io self jobs base) \<and> reported (export io self jobs base) = Some e)"
proof -
  have 1: "jobs_after (export io self jobs base) = jobs"
  proof (cases jobs)
    case None
    then show ?thesis by (simp add: export_def)
  next
    case (Some j)
    show ?thesis
    proof (cases "df_empty j")
      case True
      with Some show ?thesis by (simp add: export_def)
    next
      case False
      then show ?thesis unfolding Some
        by (simp add: export_Some split: option.splits sum.splits)
    qed
  qed
  have 2: "\<forall>f st. mem_jobs (snd (export_csv io f st)) = mem_jobs st
             \<and> mem_jobs (snd (export_json io f st)) = mem_jobs st"
    by (simp add: export_csv_mem_jobs export_json_mem_jobs)
  have 3: "success (export io self jobs base) \<longleftrightarrow>
        (\<exists>j doc. jobs = Some j \<and> \<not> df_empty j \<and> to_csv_raises io = None \<and> open_raises io = None
           \<and> json_dump (clean_for_json (to_dict j)) = Inr doc)"
  proof (cases jobs)
    case None
    then show ?thesis by (simp add: export_def)
  next
    case (Some j)
    show ?thesis
    proof (cases "df_empty j")
      case True
      with Some show ?thesis by (simp add: export_def)
    next
      case False
      then show ?thesis unfolding Some
        by (auto simp: export_Some split: option.splits sum.splits)
    qed
  qed
  have 4: "\<forall>j e. jobs = Some j \<longrightarrow> \<not> df_empty j \<longrightarrow>
         (to_csv_raises io = Some e
          \<or> (to_csv_raises io = None \<and> open_raises io = Some e)
          \<or> (to_csv_raises io = None \<and> open_raises io = None
               \<and> json_dump (clean_for_json (to_dict j)) = Inl e)) \<longrightarrow>
         \<not> success (export io self jobs base) \<and> reported (export io self jobs base) = Some e"
    by (auto simp: export_Some)
  from 1 2 3 4 show ?thesis by blast
qed

theorem export_keeps_record_set_witness:
  "jobs_after (export \<lparr>now = ''20240101_120000'', to_csv_raises = None,
                        open_raises = Some (OSError ''No space left on device'')\<rparr>
        \<lparr>output_dir = ''results''\<rparr>
        (Some \<lparr>columns = [''id'', ''title''], rows = [[PStr ''a1'', PStr ''nan'']]\<rparr>) ''jobs'')
     = Some \<lparr>columns = [''id'', ''title''], rows = [[PStr ''a1'', PStr ''nan'']]\<rparr>
   \<and> \<not> success (export \<lparr>now = ''20240101_120000'', to_csv_raises = None,
                        open_raises = Some (OSError ''No space left on device'')\<rparr>
        \<lparr>output_dir = ''results''\<rparr>
        (Some \<lparr>columns = [''id'', ''title''], rows = [[PStr ''a1'', PStr ''nan'']]\<rparr>) ''jobs'')
   \<and> reported (export \<lparr>now = ''20240101_120000'', to_csv_raises = None,
                        open_raises = Some (OSError ''No space left on device'')\<rparr>
        \<lparr>output_dir = ''results''\<rparr>
        (Some \<lparr>columns = [''id'', ''title''], rows = [[PStr ''a1'', PStr ''nan'']]\<rparr>) ''jobs'')
     = Some (OSError ''No space left on device'')"
proof -
  let ?j = "\<lparr>columns = [''id'', ''title''], rows = [[PStr ''a1'', PStr ''nan'']]\<rparr>"
  let ?io = "\<lparr>now = ''20240101_120000'', to_csv_raises = None,
              open_raises = Some (OSError ''No space left on device'')\<rparr>"
  have ne: "\<not> df_empty ?j" by (simp add: df_empty_def)
  show ?thesis
    using export_keeps_record_set [of ?io "\<lparr>output_dir = ''results''\<rparr>" "Some ?j" "''jobs''"] ne
    by simp
qed

text \<open>
  C4. Whatever the Search Provider answers, a run invokes it once for each combination,
  in the order of the loops: the locations outside, the terms inside, each in the given
  order. The arguments of a call hold the location, the country and the one term of its
  combination. The provider is invoked indeed: the batches the loop collects are the
  answers of the provider to its calls number 0, 1, ... with these arguments, each
  tagged with its query, and a search applies the provider to its arguments, enters
  that one call in the trace and returns what the provider answers to it (or
  \<^verbatim>\<open>None\<close> when the answer is empty or the search fails).
\<close>

theorem one_call_per_combination:
  "calls_of (events (collect_and_export scrape_jobs io self args))
     = map (params_for self args) (combinations args)
   \<and> map (\<lambda>p. (kw_location p, kw_country_indeed p, kw_search_term p))
        (calls_of (events (collect_and_export scrape_jobs io self args)))
     = concat (map (\<lambda>lc. map (\<lambda>t. (location lc, country lc, t)) (search_terms args))
         (locations args))
   \<and> length (calls_of (events (collect_and_export scrape_jobs io self args)))
     = length (locations args) * length (search_terms args)
   \<and> all_jobs (search_loop scrape_jobs self args
         (length (search_terms args) * length (locations args))
         \<lparr>all_jobs = [], current_search = 0, trace = []\<rparr>)
     = batches_of scrape_jobs self args
   \<and> snd (search scrape_jobs (the_scraper self) t (location lc) (platforms args) (country lc)
           (results_per_term args) (days_old args) (job_type args) (is_remote args) tr)
     = tr @ [Scrape (params_for self args (lc, t))]
   \<and> fst (search scrape_jobs (the_scraper self) t (location lc) (platforms args) (country lc)
           (results_per_term args) (days_old args) (job_type args) (is_remote args) tr)
     = (case scrape_jobs (length (calls_of tr)) (params_for self args (lc, t)) of
          Inr (Some j) \<Rightarrow>
            if rows j = [] \<or> print_results (the_scraper self) (Some j) \<noteq> None then None
            else Some j
        | _ \<Rightarrow> None)"
proof -
  have c: "calls_of (events (collect_and_export scrape_jobs io self args))
     = map (params_for self args) (combinations args)"
    by (simp add: events_collect_and_export calls_of_paced)
  have m: "map (\<lambda>p. (kw_location p, kw_country_indeed p, kw_search_term p))
          (map (params_for self args) (combinations args))
      = concat (map (\<lambda>lc. map (\<lambda>t. (location lc, country lc, t)) (search_terms args))
         (locations args))"
    by (simp add: combinations_def map_concat comp_def params_for_fields)
  have l: "length (calls_of (events (collect_and_export scrape_jobs io self args)))
     = length (locations args) * length (search_terms args)"
    by (simp add: c length_combinations)
  have b: "all_jobs (search_loop scrape_jobs self args
         (length (search_terms args) * length (locations args))
         \<lparr>all_jobs = [], current_search = 0, trace = []\<rparr>)
     = batches_of scrape_jobs self args"
    by (simp add: loop_result)
  have s: "search scrape_jobs (the_scraper self) t (location lc) (platforms args) (country lc)
           (results_per_term args) (days_old args) (job_type args) (is_remote args) tr
     = (case scrape_jobs (length (calls_of tr)) (params_for self args (lc, t)) of
          Inr (Some j) \<Rightarrow>
            if rows j = [] \<or> print_results (the_scraper self) (Some j) \<noteq> None then None
            else Some j
        | _ \<Rightarrow> None,
        tr @ [Scrape (params_for self args (lc, t))])"
    by (simp add: search_result params_for_def)
  from c m l b s show ?thesis by simp
qed

theorem one_call_per_combination_witness:
  "map (\<lambda>p. (kw_location p, kw_country_indeed p, kw_search_term p))
     (calls_of (events (collect_and_export one_batch_provider example_io example_collector example_args)))
   = [(''Recife'', ''Brazil'', ''QA Engineer''), (''Recife'', ''Brazil'', ''Tester''),
      (''Lisbon'', ''Portugal'', ''QA Engineer''), (''Lisbon'', ''Portugal'', ''Tester'')]
   \<and> all_jobs (search_loop one_batch_provider example_collector example_args 4
         \<lparr>all_jobs = [], current_search = 0, trace = []\<rparr>)
   = [\<lparr>columns = [''id'', ''title'', ''search_term'', ''search_location'', ''search_country''],
       rows = [[PStr ''a1'', PStr ''QA'', PStr ''QA Engineer'', PStr ''Recife'', PStr ''Brazil'']]\<rparr>]"
proof -
  have a: "search_terms example_args = [''QA Engineer'', ''Tester'']"
    "locations example_args = [\<lparr>location = ''Recife'', country = ''Brazil''\<rparr>,
                               \<lparr>location = ''Lisbon'', country = ''Portugal''\<rparr>]"
    by (simp_all add: example_args_def)
  have n: "length (search_terms example_args) * length (locations example_args) = 4"
    by (simp add: example_args_def)
  have b: "batches_of one_batch_provider example_collector example_args
     = [\<lparr>columns = [''id'', ''title'', ''search_term'', ''search_location'', ''search_country''],
         rows = [[PStr ''a1'', PStr ''QA'', PStr ''QA Engineer'', PStr ''Recife'', PStr ''Brazil'']]\<rparr>]"
    by code_simp
  have calls: "map (\<lambda>p. (kw_location p, kw_country_indeed p, kw_search_term p))
     (calls_of (events (collect_and_export one_batch_provider example_io example_collector example_args)))
   = [(''Recife'', ''Brazil'', ''QA Engineer''), (''Recife'', ''Brazil'', ''Tester''),
      (''Lisbon'', ''Portugal'', ''QA Engineer''), (''Lisbon'', ''Portugal'', ''Tester'')]"
    using one_call_per_combination
      [of one_batch_provider example_io example_collector example_args, THEN conjunct2, THEN conjunct1]
    by (simp add: a)
  have batches: "all_jobs (search_loop one_batch_provider example_collector example_args 4
         \<lparr>all_jobs = [], current_search = 0, trace = []\<rparr>)
   = [\<lparr>columns = [''id'', ''title'', ''search_term'', ''search_location'', ''search_country''],
       rows = [[PStr ''a1'', PStr ''QA'', PStr ''QA Engineer'', PStr ''Recife'', PStr ''Brazil'']]\<rparr>]"
    using one_call_per_combination
      [of one_batch_provider example_io example_collector example_args,
       THEN conjunct2, THEN conjunct2, THEN conjunct2, THEN conjunct1]
    by (simp add: n b)
  from calls batches show ?thesis by (rule conjI)
qed

text \<open>
  C8. In a run of at least one combination the trace is the calls with one pause of the
  configured delay after each call but the last: the pauses are one fewer than the
  calls, whatever the Search Provider answers.
\<close>

theorem pauses_between_calls:
  assumes "1 \<le> length (locations args) * length (search_terms args)"
  shows "events (collect_and_export scrape_jobs io self args)
           = paced (delay_between_searches args)
               (calls_of (events (collect_and_export scrape_jobs io self args)))
       \<and> length (calls_of (events (collect_and_export scrape_jobs io self args)))
           = length (locations args) * length (search_terms args)
       \<and> length (pauses_of (events (collect_and_export scrape_jobs io self args))) + 1
           = length (locations args) * length (search_terms args)
       \<and> list_all (\<lambda>d. d = delay_between_searches args)
           (pauses_of (events (collect_and_export scrape_jobs io self args)))"
proof -
  let ?ps = "map (params_for self args) (combinations args)"
  have e: "events (collect_and_export scrape_jobs io self args)
      = paced (delay_between_searches args) ?ps"
    by (rule events_collect_and_export)
  have l: "length ?ps = length (locations args) * length (search_terms args)"
    by (simp add: length_combinations)
  have p: "pauses_of (events (collect_and_export scrape_jobs io self args))
      = replicate (length ?ps - 1) (delay_between_searches args)"
    unfolding e by (rule pauses_of_paced)
  have 1: "events (collect_and_export scrape_jobs io self args)
           = paced (delay_between_searches args)
               (calls_of (events (collect_and_export scrape_jobs io self args)))"
    unfolding e calls_of_paced ..
  have 2: "length (calls_of (events (collect_and_export scrape_jobs io self args)))
           = length (locations args) * length (search_terms args)"
    unfolding e calls_of_paced by (rule l)
  have 3: "length (pauses_of (events (collect_and_export scrape_jobs io self args))) + 1
           = length (locations args) * length (search_terms args)"
  proof -
    have "1 \<le> length ?ps" using assms by (simp only: l)
    then have "length (replicate (length ?ps - 1) (delay_between_searches args)) + 1 = length ?ps"
      by simp
    then show ?thesis by (simp only: p l)
  qed
  have 4: "list_all (\<lambda>d. d = delay_between_searches args)
           (pauses_of (events (collect_and_export scrape_jobs io self args)))"
    unfolding p by (simp add: list_all_iff)
  from 1 2 3 4 show ?thesis by blast
qed

theorem pauses_between_calls_witness:
  "length (pauses_of (events (collect_and_export one_batch_provider example_io example_collector example_args))) = 3
   \<and> list_all (\<lambda>d. d = 2)
        (pauses_of (events (collect_and_export one_batch_provider example_io example_collector example_args)))"
proof -
  have n: "1 \<le> length (locations example_args) * length (search_terms example_args)"
    by (simp add: example_args_def)
  have d: "delay_between_searches example_args = 2"
    "length (locations example_args) * length (search_terms example_args) = 4"
    by (simp_all add: example_args_def)
  show ?thesis
    using pauses_between_calls [OF n, of one_batch_provider example_io example_collector]
    by (simp add: d)
qed




end
